theory Spec2Isabelle
  imports Main "HOL-Library.Sublist"
begin

section \<open>Python values used by QueenSolver.py\<close>

text \<open>
  Python integers are unbounded, so \<open>n\<close>, \<open>k\<close>, variable IDs and literals are \<open>int\<close>.
  A raised exception is the \<open>Inl\<close> branch of a sum. A Python \<open>str\<close> is a \<open>string\<close>
  whose characters are read as the code points below 256.
\<close>

datatype py_error = ValueError | IndexError | FileNotFoundError | OverflowError | MemoryError | OSError

text \<open>\<open>range(n)\<close> and \<open>range(a, b)\<close>: empty when the upper end is not above the lower.\<close>

definition range1 :: "int \<Rightarrow> int list" where
  "range1 n = [0..n - 1]"

definition range2 :: "int \<Rightarrow> int \<Rightarrow> int list" where
  "range2 a b = [a..b - 1]"

text \<open>
  \<open>itertools.combinations(xs, r)\<close>: the \<open>r\<close>-element subsequences of \<open>xs\<close> in
  lexicographic order of their positions; none when \<open>r\<close> exceeds the length; the call
  raises \<open>ValueError\<close> when \<open>r\<close> is negative. This is the function on a machine without
  limits, where every size fits a machine word and every allocation is granted; the
  failures of a real machine are those of \<open>combinations_on\<close> below.
\<close>

fun combs :: "'a list \<Rightarrow> nat \<Rightarrow> 'a list list" where
  "combs xs 0 = [[]]"
| "combs [] (Suc r) = []"
| "combs (x # xs) (Suc r) = map ((#) x) (combs xs r) @ combs xs (Suc r)"

definition combinations :: "'a list \<Rightarrow> int \<Rightarrow> py_error + 'a list list" where
  "combinations xs r = (if r < 0 then Inl ValueError else Inr (combs xs (nat r)))"

subsection \<open>Strings\<close>

text \<open>\<open>str(i)\<close> of an integer: decimal digits, with a leading minus sign when negative.\<close>

definition digit_char :: "nat \<Rightarrow> char" where
  "digit_char d = ''0123456789'' ! d"

fun str_nat :: "nat \<Rightarrow> string" where
  "str_nat m = (if m < 10 then [digit_char m] else str_nat (m div 10) @ [digit_char (m mod 10)])"

declare str_nat.simps [simp del]

definition str_int :: "int \<Rightarrow> string" where
  "str_int i = (if i < 0 then CHR ''-'' # str_nat (nat (- i)) else str_nat (nat i))"

text \<open>\<open>sep.join(xs)\<close>.\<close>

fun join :: "string \<Rightarrow> string list \<Rightarrow> string" where
  "join sep [] = []"
| "join sep [x] = x"
| "join sep (x # y # ys) = x @ sep @ join sep (y # ys)"

text \<open>
  \<open>str.isspace\<close> on one character, and the line boundaries of \<open>str.splitlines\<close>
  (line feed, vertical tab, form feed, carriage return, the separators 0x1C to 0x1E and
  next-line 0x85).
\<close>

definition is_space :: "char \<Rightarrow> bool" where
  "is_space c = (c \<in> set [CHR 0x09, CHR 0x0A, CHR 0x0B, CHR 0x0C, CHR 0x0D,
                            CHR 0x1C, CHR 0x1D, CHR 0x1E, CHR 0x1F, CHR 0x20, CHR 0x85, CHR 0xA0])"

definition is_linebreak :: "char \<Rightarrow> bool" where
  "is_linebreak c = (c \<in> set [CHR 0x0A, CHR 0x0B, CHR 0x0C, CHR 0x0D,
                                CHR 0x1C, CHR 0x1D, CHR 0x1E, CHR 0x85])"

text \<open>\<open>s.split()\<close>: the maximal runs of non-space characters.\<close>

function split_ws :: "string \<Rightarrow> string list" where
  "split_ws [] = []"
| "split_ws (c # cs) =
     (if is_space c then split_ws cs
      else (c # takeWhile (\<lambda>x. \<not> is_space x) cs) # split_ws (dropWhile (\<lambda>x. \<not> is_space x) cs))"
  by pat_completeness auto
termination
  by (relation "measure length") (auto simp: less_Suc_eq_le length_dropWhile_le)

text \<open>\<open>s.splitlines()\<close>: a carriage return followed by a line feed is one boundary.\<close>

function splitlines :: "string \<Rightarrow> string list" where
  "splitlines [] = []"
| "splitlines (c # cs) =
     (let l = takeWhile (\<lambda>x. \<not> is_linebreak x) (c # cs);
          r = dropWhile (\<lambda>x. \<not> is_linebreak x) (c # cs)
      in case r of
           [] \<Rightarrow> [l]
         | b # r' \<Rightarrow>
             l # splitlines (if b = CHR 0x0D \<and> r' \<noteq> [] \<and> hd r' = CHR 0x0A then tl r' else r'))"
  by pat_completeness auto
termination
proof (relation "measure length", goal_cases)
  case 1
  show ?case by simp
next
  case (2 c cs l r b r')
  have "length r \<le> length (c # cs)"
    unfolding 2(2) by (rule length_dropWhile_le)
  moreover have "length (if b = CHR 0x0D \<and> r' \<noteq> [] \<and> hd r' = CHR 0x0A then tl r' else r') \<le> length r'"
    by simp
  ultimately show ?case
    using 2(3) by simp
qed

text \<open>\<open>s.strip()\<close>.\<close>

definition strip :: "string \<Rightarrow> string" where
  "strip s = rev (dropWhile is_space (rev (dropWhile is_space s)))"

text \<open>
  \<open>int(s)\<close>: surrounding white space is dropped; an optional sign; then decimal digits,
  where single underscores may stand between digits. \<open>None\<close> is the \<open>ValueError\<close>.
  The white space \<open>int\<close> drops is not that of \<open>str.strip\<close>: the separators 0x1C to 0x1F
  are not part of it. More than 4300 digits are refused (the default limit of CPython for
  the conversion between \<open>str\<close> and \<open>int\<close>).
\<close>

definition is_int_space :: "char \<Rightarrow> bool" where
  "is_int_space c = (c \<in> set [CHR 0x09, CHR 0x0A, CHR 0x0B, CHR 0x0C, CHR 0x0D,
                                CHR 0x20, CHR 0x85, CHR 0xA0])"

definition int_strip :: "string \<Rightarrow> string" where
  "int_strip s = rev (dropWhile is_int_space (rev (dropWhile is_int_space s)))"

definition is_digit :: "char \<Rightarrow> bool" where
  "is_digit c = (c \<in> set ''0123456789'')"

definition digit_val :: "char \<Rightarrow> nat" where
  "digit_val c = of_char c - 48"

fun parse_digits :: "nat \<Rightarrow> string \<Rightarrow> nat option" where
  "parse_digits acc [] = Some acc"
| "parse_digits acc [c] = (if is_digit c then Some (10 * acc + digit_val c) else None)"
| "parse_digits acc (c # d # ds) =
     (if is_digit c then parse_digits (10 * acc + digit_val c) (d # ds)
      else if c = CHR ''_'' \<and> is_digit d then parse_digits (10 * acc + digit_val d) ds
      else None)"

definition parse_nat :: "string \<Rightarrow> nat option" where
  "parse_nat s = (case s of [] \<Rightarrow> None
                 | c # cs \<Rightarrow> if is_digit c then parse_digits (digit_val c) cs else None)"

text \<open>The integer a string denotes, whatever its length.\<close>

definition int_literal :: "string \<Rightarrow> int option" where
  "int_literal s =
     (case int_strip s of
        [] \<Rightarrow> None
      | c # cs \<Rightarrow>
          if c = CHR ''-'' then map_option (\<lambda>m. - int m) (parse_nat cs)
          else if c = CHR ''+'' then map_option int (parse_nat cs)
          else map_option int (parse_nat (c # cs)))"

definition py_int :: "string \<Rightarrow> int option" where
  "py_int s = (if 4300 < length (filter is_digit s) then None else int_literal s)"

section \<open>The encoder: writeCNF\<close>

subsection \<open>The variable numbering (lines 8 to 11)\<close>

definition wVar :: "int \<Rightarrow> int \<Rightarrow> int \<Rightarrow> int" where
  "wVar n i j = i * n + j + 1"

definition bVar :: "int \<Rightarrow> int \<Rightarrow> int \<Rightarrow> int" where
  "bVar n i j = n * n + i * n + j + 1"

text \<open>The comprehension \<open>[(i,j) for i in range(n) for j in range(n)]\<close> of lines 16 and 17.\<close>

definition cells :: "int \<Rightarrow> (int \<times> int) list" where
  "cells n = [(i, j). i \<leftarrow> range1 n, j \<leftarrow> range1 n]"

subsection \<open>The non-attack clauses (lines 38 to 62)\<close>

text \<open>The body of the two outer loops for one cell \<open>(i, j)\<close>: row, column, both diagonals.\<close>

definition attack_cell :: "int \<Rightarrow> int \<Rightarrow> int \<Rightarrow> int list list" where
  "attack_cell n i j =
     (let wv = wVar n i j in
        [[- wv, - bVar n i jj]. jj \<leftarrow> range1 n, jj \<noteq> j]
      @ [[- wv, - bVar n ii j]. ii \<leftarrow> range1 n, ii \<noteq> i]
      @ [[- wv, - bVar n (i + d) (j + d)]. d \<leftarrow> range2 (- n + 1) n, d \<noteq> 0,
           0 \<le> i + d \<and> i + d < n \<and> 0 \<le> j + d \<and> j + d < n]
      @ [[- wv, - bVar n (i + d) (j - d)]. d \<leftarrow> range2 (- n + 1) n, d \<noteq> 0,
           0 \<le> i + d \<and> i + d < n \<and> 0 \<le> j - d \<and> j - d < n])"

definition attack_clauses :: "int \<Rightarrow> int list list" where
  "attack_clauses n = concat [attack_cell n i j. i \<leftarrow> range1 n, j \<leftarrow> range1 n]"

subsection \<open>The cell exclusivity clauses (lines 65 to 69)\<close>

definition exclusive_clauses :: "int \<Rightarrow> int list list" where
  "exclusive_clauses n = [[- wVar n i j, - bVar n i j]. i \<leftarrow> range1 n, j \<leftarrow> range1 n]"

subsection \<open>The list \<open>clauses\<close> when line 71 is reached (lines 14 to 69)\<close>

text \<open>
  The four calls of \<open>itertools.combinations\<close> run in this order, and the first one that
  raises ends the function: nothing has been written at that point.
\<close>

definition clausesCNF :: "int \<Rightarrow> int \<Rightarrow> py_error + int list list" where
  "clausesCNF n k =
     (let wCells = cells n; bCells = cells n; totalCells = n * n in
      case combinations wCells (k + 1) of Inl e \<Rightarrow> Inl e | Inr amW \<Rightarrow>
      case combinations bCells (k + 1) of Inl e \<Rightarrow> Inl e | Inr amB \<Rightarrow>
      case combinations wCells (totalCells - k + 1) of Inl e \<Rightarrow> Inl e | Inr alW \<Rightarrow>
      case combinations bCells (totalCells - k + 1) of Inl e \<Rightarrow> Inl e | Inr alB \<Rightarrow>
        Inr (  [[- wVar n i j. (i, j) \<leftarrow> combi]. combi \<leftarrow> amW]
             @ [[- bVar n i j. (i, j) \<leftarrow> combi]. combi \<leftarrow> amB]
             @ [[wVar n i j. (i, j) \<leftarrow> combi]. combi \<leftarrow> alW]
             @ [[bVar n i j. (i, j) \<leftarrow> combi]. combi \<leftarrow> alB]
             @ attack_clauses n
             @ exclusive_clauses n))"

subsection \<open>The DIMACS text (lines 72 to 76)\<close>

definition clause_line :: "int list \<Rightarrow> string" where
  "clause_line c = join '' '' (map str_int c) @ '' 0'' @ [CHR 0x0A]"

definition dimacs :: "int \<Rightarrow> int list list \<Rightarrow> string" where
  "dimacs maxVar clauses =
     ''p cnf '' @ str_int maxVar @ '' '' @ str_int (int (length clauses)) @ [CHR 0x0A]
     @ concat (map clause_line clauses)"

text \<open>
  The file system is a map from paths to contents. \<open>open(outputFile, "w")\<close> replaces
  the file's content. Here the path is one that can be opened for writing and the machine
  is one without limits; \<open>writeCNF_on\<close> below has the failures of a real one.
\<close>

type_synonym files = "string \<rightharpoonup> string"

definition writeCNF :: "int \<Rightarrow> int \<Rightarrow> string \<Rightarrow> files \<Rightarrow> py_error + files" where
  "writeCNF n k outputFile fs =
     (case clausesCNF n k of
        Inl e \<Rightarrow> Inl e
      | Inr clauses \<Rightarrow>
          (let maxVar = 2 * n * n in Inr (fs(outputFile \<mapsto> dimacs maxVar clauses))))"

subsection \<open>The encoder on a machine with limits\<close>

text \<open>
  What the environment decides: which integers fit a C \<open>ssize_t\<close> (on a 64-bit CPython
  those from \<open>- 2 ^ 63\<close> to \<open>2 ^ 63 - 1\<close>), which requests for a block of so many machine
  words the allocator grants, and which paths \<open>open(path, "w")\<close> can open.
\<close>

record machine =
  in_ssize :: "int \<Rightarrow> bool"
  grants :: "nat \<Rightarrow> bool"
  writable :: "string \<Rightarrow> bool"

text \<open>
  \<open>itertools.combinations\<close> as CPython implements it: the size is converted to
  \<open>ssize_t\<close> (\<open>OverflowError\<close>), then checked for its sign (\<open>ValueError\<close>), then an
  array of \<open>r\<close> indices is allocated (\<open>MemoryError\<close>), and only then is \<open>r\<close> compared
  with the number of elements.
\<close>

definition combinations_on :: "machine \<Rightarrow> 'a list \<Rightarrow> int \<Rightarrow> py_error + 'a list list" where
  "combinations_on m xs r =
     (if \<not> in_ssize m r then Inl OverflowError
      else if r < 0 then Inl ValueError
      else if \<not> grants m (nat r) then Inl MemoryError
      else Inr (combs xs (nat r)))"

text \<open>
  Lines 14 to 69 on such a machine: the two lists of cells of lines 16 and 17 have to be
  granted before the first call of \<open>itertools.combinations\<close>, and the list \<open>clauses\<close>
  has to be granted at its full length.
\<close>

definition clausesCNF_on :: "machine \<Rightarrow> int \<Rightarrow> int \<Rightarrow> py_error + int list list" where
  "clausesCNF_on m n k =
     (if \<not> grants m (length (cells n)) then Inl MemoryError
      else
        let wCells = cells n; bCells = cells n; totalCells = n * n in
        case combinations_on m wCells (k + 1) of Inl e \<Rightarrow> Inl e | Inr amW \<Rightarrow>
        case combinations_on m bCells (k + 1) of Inl e \<Rightarrow> Inl e | Inr amB \<Rightarrow>
        case combinations_on m wCells (totalCells - k + 1) of Inl e \<Rightarrow> Inl e | Inr alW \<Rightarrow>
        case combinations_on m bCells (totalCells - k + 1) of Inl e \<Rightarrow> Inl e | Inr alB \<Rightarrow>
          (let clauses =
                 [[- wVar n i j. (i, j) \<leftarrow> combi]. combi \<leftarrow> amW]
               @ [[- bVar n i j. (i, j) \<leftarrow> combi]. combi \<leftarrow> amB]
               @ [[wVar n i j. (i, j) \<leftarrow> combi]. combi \<leftarrow> alW]
               @ [[bVar n i j. (i, j) \<leftarrow> combi]. combi \<leftarrow> alB]
               @ attack_clauses n
               @ exclusive_clauses n
           in if grants m (length clauses) then Inr clauses else Inl MemoryError))"

text \<open>
  Lines 72 to 76 on such a machine: \<open>open\<close> raises an \<open>OSError\<close> when the path cannot
  be opened for writing; the clauses have all been accumulated by then.
\<close>

definition writeCNF_on :: "machine \<Rightarrow> int \<Rightarrow> int \<Rightarrow> string \<Rightarrow> files \<Rightarrow> py_error + files" where
  "writeCNF_on m n k outputFile fs =
     (case clausesCNF_on m n k of
        Inl e \<Rightarrow> Inl e
      | Inr clauses \<Rightarrow>
          (let maxVar = 2 * n * n in
           if writable m outputFile then Inr (fs(outputFile \<mapsto> dimacs maxVar clauses))
           else Inl OSError))"

text \<open>
  A 64-bit CPython: \<open>ssize_t\<close> has 64 bits, and a block of \<open>2 ^ 60\<close> words or more is
  refused whatever the allocator \<open>g\<close> would grant, since its size in bytes does not fit.
\<close>

definition machine64 :: "(nat \<Rightarrow> bool) \<Rightarrow> (string \<Rightarrow> bool) \<Rightarrow> machine" where
  "machine64 g w =
     \<lparr>in_ssize = (\<lambda>r. - (2 ^ 63) \<le> r \<and> r < 2 ^ 63),
      grants = (\<lambda>s. s < 2 ^ 60 \<and> g s),
      writable = w\<rparr>"

subsection \<open>What a formula means\<close>

text \<open>
  An assignment gives every variable ID a truth value; a positive literal holds when its
  variable is true, a negative one when its variable is false; a clause is a disjunction
  and a formula a conjunction.
\<close>

definition lit_true :: "(int \<Rightarrow> bool) \<Rightarrow> int \<Rightarrow> bool" where
  "lit_true \<sigma> l = (if 0 < l then \<sigma> l else \<not> \<sigma> (- l))"

definition clause_true :: "(int \<Rightarrow> bool) \<Rightarrow> int list \<Rightarrow> bool" where
  "clause_true \<sigma> c = list_ex (lit_true \<sigma>) c"

definition satisfies :: "(int \<Rightarrow> bool) \<Rightarrow> int list list \<Rightarrow> bool" where
  "satisfies \<sigma> clauses = list_all (clause_true \<sigma>) clauses"

section \<open>The solver adapter: solveCNF\<close>

text \<open>
  \<open>subprocess.run\<close> is the environment's: given the path of the CNF file it either
  raises (\<open>FileNotFoundError\<close> when no \<open>glucose\<close> is on the search path) or returns
  the captured standard output.
\<close>

type_synonym solver = "string \<Rightarrow> py_error + string"

text \<open>Lines 96 to 99: the tokens after the first, each read by \<open>int\<close>; zeros are left out.\<close>

fun read_vals :: "string list \<Rightarrow> int list \<Rightarrow> py_error + int list" where
  "read_vals [] model = Inr model"
| "read_vals (p # ps) model =
     (case py_int p of
        None \<Rightarrow> Inl ValueError
      | Some val \<Rightarrow> read_vals ps (if val \<noteq> 0 then model @ [val] else model))"

text \<open>The loop of lines 86 to 99 over the output lines, with \<open>sat\<close> and \<open>model\<close> as state.\<close>

fun scan_lines :: "string list \<Rightarrow> bool option \<Rightarrow> int list \<Rightarrow> py_error + (bool option \<times> int list)" where
  "scan_lines [] sat model = Inr (sat, model)"
| "scan_lines (l # ls) sat model =
     (let sat' = (if prefix ''s '' l
                  then (if sublist ''UNSATISFIABLE'' l then Some False else Some True)
                  else sat)
      in if prefix ''v '' l
         then (case read_vals (drop 1 (split_ws l)) model of
                 Inl e \<Rightarrow> Inl e
               | Inr model' \<Rightarrow> scan_lines ls sat' model')
         else scan_lines ls sat' model)"

text \<open>The result is what was printed (one entry for each \<open>print\<close>), \<open>sat\<close> and \<open>model\<close>.\<close>

definition solveCNF :: "solver \<Rightarrow> string \<Rightarrow> bool \<Rightarrow> py_error + (string list \<times> bool option \<times> int list)" where
  "solveCNF run cnfFile printStats =
     (case run cnfFile of
        Inl e \<Rightarrow> Inl e
      | Inr stdout \<Rightarrow>
          (let output = splitlines stdout in
           case scan_lines output None [] of
             Inl e \<Rightarrow> Inl e
           | Inr (sat, model) \<Rightarrow>
               Inr (if printStats
                    then (CHR 0x0A # ''Solver Stats:'') # filter (prefix ''c '') output
                    else [],
                    sat, model)))"

section \<open>The decoder: decodeSolution\<close>

text \<open>Lines 109 to 119: the two position sets, filled cell by cell.\<close>

definition positions :: "int \<Rightarrow> int list \<Rightarrow> (int \<times> int) set \<times> (int \<times> int) set" where
  "positions n model =
     (let trueVars = set [v \<leftarrow> model. v > 0] in
      fold (\<lambda>(i, j) (wPositions, bPositions).
              let wv = i * n + j + 1;
                  bv = n * n + i * n + j + 1
              in (if wv \<in> trueVars then insert (i, j) wPositions else wPositions,
                  if bv \<in> trueVars then insert (i, j) bPositions else bPositions))
           [(i, j). i \<leftarrow> range1 n, j \<leftarrow> range1 n] ({}, {}))"

text \<open>Lines 122 to 133: one symbol for each cell, a row joined by spaces, rows by line feeds.\<close>

definition board_row :: "int \<Rightarrow> (int \<times> int) set \<Rightarrow> (int \<times> int) set \<Rightarrow> int \<Rightarrow> string" where
  "board_row n wPositions bPositions i =
     join '' '' [if (i, j) \<in> wPositions then ''W''
                 else if (i, j) \<in> bPositions then ''B''
                 else ''.''. j \<leftarrow> range1 n]"

definition decodeSolution :: "int \<Rightarrow> int list \<Rightarrow> string" where
  "decodeSolution n model =
     (case positions n model of
        (wPositions, bPositions) \<Rightarrow>
          join [CHR 0x0A] [board_row n wPositions bPositions i. i \<leftarrow> range1 n])"

section \<open>The entry point: main\<close>

text \<open>The parsed command line: \<open>None\<close> is an option that was not given.\<close>

record args =
  arg_n :: "int option"
  arg_k :: "int option"
  arg_cnf :: "string option"
  arg_solve :: bool
  arg_stats :: bool
  arg_instance :: "string option"

text \<open>Python's truth test: \<open>None\<close>, the empty string and zero are false.\<close>

definition truthy_str :: "string option \<Rightarrow> bool" where
  "truthy_str s = (case s of None \<Rightarrow> False | Some t \<Rightarrow> t \<noteq> [])"

definition truthy_int :: "int option \<Rightarrow> bool" where
  "truthy_int v = (case v of None \<Rightarrow> False | Some i \<Rightarrow> i \<noteq> 0)"

text \<open>Lines 151 to 154: the instance file, \<open>n\<close> on the first line and \<open>k\<close> on the second.\<close>

definition read_instance :: "files \<Rightarrow> string \<Rightarrow> py_error + (int \<times> int)" where
  "read_instance fs path =
     (case fs path of
        None \<Rightarrow> Inl FileNotFoundError
      | Some content \<Rightarrow>
          (case splitlines (strip content) of
             [] \<Rightarrow> Inl IndexError
           | l0 # rest \<Rightarrow>
               (case py_int l0 of
                  None \<Rightarrow> Inl ValueError
                | Some n \<Rightarrow>
                    (case rest of
                       [] \<Rightarrow> Inl IndexError
                     | l1 # _ \<Rightarrow>
                         (case py_int l1 of
                            None \<Rightarrow> Inl ValueError
                          | Some k \<Rightarrow> Inr (n, k))))))"

datatype exit = Returned | SysExit int | Raised py_error

record outcome =
  printed :: "string list"
  disk :: files
  status :: exit

text \<open>
  \<open>main\<close> on a parsed command line, a file system and the environment's solver, which
  reads the CNF file from the file system as \<open>writeCNF\<close> left it.
\<close>

definition main :: "args \<Rightarrow> files \<Rightarrow> (files \<Rightarrow> solver) \<Rightarrow> outcome" where
  "main a fs glucose =
     (case (case arg_instance a of
              Some path \<Rightarrow>
                if path \<noteq> []
                then (case read_instance fs path of
                        Inl e \<Rightarrow> Inl e
                      | Inr (n, k) \<Rightarrow> Inr (Some n, Some k))
                else Inr (arg_n a, arg_k a)
            | None \<Rightarrow> Inr (arg_n a, arg_k a)) of
        Inl e \<Rightarrow> \<lparr>printed = [], disk = fs, status = Raised e\<rparr>
      | Inr (n, k) \<Rightarrow>
          if \<not> truthy_int n \<or> \<not> truthy_int k
          then \<lparr>printed = [''Please specify n and k.''], disk = fs, status = SysExit 1\<rparr>
          else
            (let cnfFile = (if truthy_str (arg_cnf a) then the (arg_cnf a) else ''tmp.cnf'') in
             case writeCNF (the n) (the k) cnfFile fs of
               Inl e \<Rightarrow> \<lparr>printed = [], disk = fs, status = Raised e\<rparr>
             | Inr fs' \<Rightarrow>
                 if arg_solve a
                 then (case solveCNF (glucose fs') cnfFile (arg_stats a) of
                         Inl e \<Rightarrow> \<lparr>printed = [], disk = fs', status = Raised e\<rparr>
                       | Inr (out, sat, model) \<Rightarrow>
                           \<lparr>printed = out @
                              (case sat of
                                 None \<Rightarrow> [''Error running solver.'']
                               | Some True \<Rightarrow> [''SAT'', decodeSolution (the n) model]
                               | Some False \<Rightarrow> [''UNSAT'']),
                            disk = fs', status = Returned\<rparr>)
                 else \<lparr>printed = [], disk = fs', status = Returned\<rparr>))"

section \<open>Facts about the variable numbering\<close>

lemma set_range1: "set (range1 n) = {0..<n}"
  by (auto simp: range1_def)

lemma set_range2: "set (range2 a b) = {a..<b}"
  by (auto simp: range2_def)

lemma set_cells: "set (cells n) = {0..<n} \<times> {0..<n}"
  by (auto simp: cells_def set_range1)

lemma cell_index_bounds:
  fixes n i j :: int
  assumes "0 \<le> i" "i < n" "0 \<le> j" "j < n"
  shows "0 \<le> i * n + j" and "i * n + j < n * n"
proof -
  from assms have "0 \<le> i * n" by simp
  with assms show "0 \<le> i * n + j" by simp
  from assms have "i + 1 \<le> n" by simp
  then have "(i + 1) * n \<le> n * n"
    using assms by (intro mult_right_mono) auto
  then show "i * n + j < n * n"
    using assms by (simp add: algebra_simps)
qed

lemma cell_index_inj:
  fixes n i j i' j' :: int
  assumes "0 \<le> j" "j < n" "0 \<le> j'" "j' < n" "i * n + j = i' * n + j'"
  shows "i = i' \<and> j = j'"
proof -
  have "i = (i * n + j) div n" using assms(1,2) by simp
  also have "\<dots> = (i' * n + j') div n" by (simp only: assms(5))
  also have "\<dots> = i'" using assms(3,4) by simp
  finally have "i = i'" .
  with assms show ?thesis by simp
qed

lemma cell_index_surj:
  fixes n v :: int
  assumes "0 \<le> n" "0 \<le> v" "v < n * n"
  shows "\<exists>i j. 0 \<le> i \<and> i < n \<and> 0 \<le> j \<and> j < n \<and> v = i * n + j"
proof -
  from assms have n: "0 < n" by (cases "n = 0") auto
  have "0 \<le> v div n" using assms n by (simp add: pos_imp_zdiv_nonneg_iff)
  moreover have "v div n < n"
  proof (rule ccontr)
    assume "\<not> v div n < n"
    then have "n * n \<le> (v div n) * n"
      using n by (intro mult_right_mono) auto
    also have "\<dots> = v - v mod n"
      by (simp add: minus_mod_eq_div_mult)
    also have "\<dots> \<le> v" using n by simp
    finally show False using assms by simp
  qed
  moreover have "0 \<le> v mod n" "v mod n < n" using n by simp_all
  moreover have "v = (v div n) * n + v mod n" by simp
  ultimately show ?thesis by blast
qed

lemma wVar_bij: "0 \<le> n \<Longrightarrow> bij_betw (\<lambda>(i, j). wVar n i j) (set (cells n)) {1..n * n}"
  unfolding bij_betw_def
proof
  assume n: "0 \<le> n"
  show "inj_on (\<lambda>(i, j). wVar n i j) (set (cells n))"
    by (auto simp: inj_on_def set_cells wVar_def dest: cell_index_inj)
  show "(\<lambda>(i, j). wVar n i j) ` set (cells n) = {1..n * n}"
  proof (intro equalityI subsetI)
    fix v assume "v \<in> (\<lambda>(i, j). wVar n i j) ` set (cells n)"
    then show "v \<in> {1..n * n}"
      using cell_index_bounds by (fastforce simp: set_cells wVar_def)
  next
    fix v assume "v \<in> {1..n * n}"
    then have "0 \<le> v - 1" "v - 1 < n * n" by auto
    from cell_index_surj[OF n this] obtain i j where
      "0 \<le> i" "i < n" "0 \<le> j" "j < n" "v - 1 = i * n + j" by blast
    then have "(i, j) \<in> set (cells n)" "v = wVar n i j"
      by (auto simp: set_cells wVar_def)
    then show "v \<in> (\<lambda>(i, j). wVar n i j) ` set (cells n)"
      by (metis (mono_tags, lifting) case_prod_conv image_eqI)
  qed
qed

lemma bVar_wVar: "bVar n i j = n * n + wVar n i j"
  by (simp add: bVar_def wVar_def)

lemma bVar_bij: "0 \<le> n \<Longrightarrow> bij_betw (\<lambda>(i, j). bVar n i j) (set (cells n)) {n * n + 1..2 * n * n}"
proof -
  assume n: "0 \<le> n"
  have "bij_betw (\<lambda>v. n * n + v) {1..n * n} {n * n + 1..2 * n * n}"
    by (rule bij_betw_byWitness[where f' = "\<lambda>v. v - n * n"]) auto
  from bij_betw_trans[OF wVar_bij[OF n] this]
  have "bij_betw ((\<lambda>v. n * n + v) \<circ> (\<lambda>(i, j). wVar n i j)) (set (cells n)) {n * n + 1..2 * n * n}" .
  moreover have "(\<lambda>v. n * n + v) \<circ> (\<lambda>(i, j). wVar n i j) = (\<lambda>(i, j). bVar n i j)"
    by (auto simp: fun_eq_iff bVar_wVar)
  ultimately show ?thesis by simp
qed

lemma fold_pair_filter:
  assumes "\<And>c W B. f c (W, B) = (if P c then insert c W else W, if Q c then insert c B else B)"
  shows "fold f cs (W, B) = (W \<union> {c \<in> set cs. P c}, B \<union> {c \<in> set cs. Q c})"
  by (induction cs arbitrary: W B) (auto simp: assms)

lemma positions_eq:
  "positions n model =
     ({(i, j) \<in> set (cells n). wVar n i j \<in> {v \<in> set model. 0 < v}},
      {(i, j) \<in> set (cells n). bVar n i j \<in> {v \<in> set model. 0 < v}})"
proof -
  let ?T = "set [v \<leftarrow> model. v > 0]"
  have "positions n model =
      ({} \<union> {c \<in> set (cells n). case c of (i, j) \<Rightarrow> wVar n i j \<in> ?T},
       {} \<union> {c \<in> set (cells n). case c of (i, j) \<Rightarrow> bVar n i j \<in> ?T})"
    unfolding positions_def Let_def cells_def[symmetric]
    by (rule fold_pair_filter) (auto simp: wVar_def bVar_def)
  then show ?thesis by auto
qed

lemma sum_bij_betw:
  assumes f: "bij_betw f A X" and g: "bij_betw g B Y" and d: "X \<inter> Y = {}"
  shows "bij_betw (case_sum f g) (A <+> B) (X \<union> Y)"
  unfolding bij_betw_def
proof
  have fi: "inj_on f A" and fA: "f ` A = X" using f by (simp_all add: bij_betw_def)
  have gi: "inj_on g B" and gB: "g ` B = Y" using g by (simp_all add: bij_betw_def)
  show "inj_on (case_sum f g) (A <+> B)"
  proof (rule inj_onI)
    fix u v assume u: "u \<in> A <+> B" and v: "v \<in> A <+> B"
      and e: "case_sum f g u = case_sum f g v"
    show "u = v"
    proof (cases u)
      case (Inl a)
      show ?thesis
      proof (cases v)
        case (Inl a')
        with \<open>u = Inl a\<close> u v e fi show ?thesis by (auto dest: inj_onD)
      next
        case (Inr b')
        with \<open>u = Inl a\<close> u v e have m: "a \<in> A" "b' \<in> B" "f a = g b'" by auto
        have "f a \<in> X" using m(1) fA by blast
        moreover have "g b' \<in> Y" using m(2) gB by blast
        ultimately show ?thesis using d m(3) by (metis disjoint_iff)
      qed
    next
      case (Inr b)
      show ?thesis
      proof (cases v)
        case (Inl a')
        with \<open>u = Inr b\<close> u v e have m: "a' \<in> A" "b \<in> B" "f a' = g b" by auto
        have "f a' \<in> X" using m(1) fA by blast
        moreover have "g b \<in> Y" using m(2) gB by blast
        ultimately show ?thesis using d m(3) by (metis disjoint_iff)
      next
        case (Inr b')
        with \<open>u = Inr b\<close> u v e gi show ?thesis by (auto dest: inj_onD)
      qed
    qed
  qed
  have "case_sum f g ` (A <+> B) = f ` A \<union> g ` B"
    by (simp add: Plus_def image_Un image_image)
  then show "case_sum f g ` (A <+> B) = X \<union> Y"
    by (simp add: fA gB)
qed

lemma ids_interval_union:
  fixes m :: int
  assumes "0 \<le> m"
  shows "{1..m} \<union> {m + 1..2 * m} = {1..2 * m}"
  using assms by auto

text \<open>
  C7. For a board of size \<open>n \<ge> 1\<close>, \<open>wVar\<close> maps the cells one-to-one onto the IDs
  \<open>1 .. n * n\<close>, \<open>bVar\<close> maps them one-to-one onto \<open>n * n + 1 .. 2 * n * n\<close>, the two
  together map the (cell, army) pairs one-to-one onto \<open>1 .. 2 * n * n\<close>, and the position
  sets the decoder computes from its inline formulas are exactly the cells whose \<open>wVar\<close>
  (respectively \<open>bVar\<close>) ID is a positive entry of the model: the decoder recomputes the
  encoder's numbering.
\<close>

theorem variable_ids_bijection:
  assumes "1 \<le> n"
  shows "bij_betw (\<lambda>(i, j). wVar n i j) ({0..<n} \<times> {0..<n}) {1..n * n}
       \<and> bij_betw (\<lambda>(i, j). bVar n i j) ({0..<n} \<times> {0..<n}) {n * n + 1..2 * n * n}
       \<and> bij_betw (case_sum (\<lambda>(i, j). wVar n i j) (\<lambda>(i, j). bVar n i j))
            (({0..<n} \<times> {0..<n}) <+> ({0..<n} \<times> {0..<n})) {1..2 * n * n}
       \<and> positions n model =
            ({(i, j). 0 \<le> i \<and> i < n \<and> 0 \<le> j \<and> j < n \<and> 0 < wVar n i j \<and> wVar n i j \<in> set model},
             {(i, j). 0 \<le> i \<and> i < n \<and> 0 \<le> j \<and> j < n \<and> 0 < bVar n i j \<and> bVar n i j \<in> set model})"
proof (intro conjI)
  from assms have n: "0 \<le> n" by simp
  show w: "bij_betw (\<lambda>(i, j). wVar n i j) ({0..<n} \<times> {0..<n}) {1..n * n}"
    using wVar_bij[OF n] by (simp only: set_cells)
  show b: "bij_betw (\<lambda>(i, j). bVar n i j) ({0..<n} \<times> {0..<n}) {n * n + 1..2 * n * n}"
    using bVar_bij[OF n] by (simp only: set_cells)
  have d: "{1..n * n} \<inter> {n * n + 1..2 * n * n} = {}" by auto
  have "0 \<le> n * n" by simp
  from ids_interval_union[OF this]
  have u: "{1..n * n} \<union> {n * n + 1..2 * n * n} = {1..2 * n * n}"
    by (simp only: mult.assoc)
  show "bij_betw (case_sum (\<lambda>(i, j). wVar n i j) (\<lambda>(i, j). bVar n i j))
            (({0..<n} \<times> {0..<n}) <+> ({0..<n} \<times> {0..<n})) {1..2 * n * n}"
    using sum_bij_betw[OF w b d] by (simp only: u)
  have "{c \<in> {0..<n} \<times> {0..<n}. case c of (i, j) \<Rightarrow> wVar n i j \<in> {v \<in> set model. 0 < v}}
        = {(i, j). 0 \<le> i \<and> i < n \<and> 0 \<le> j \<and> j < n \<and> 0 < wVar n i j \<and> wVar n i j \<in> set model}"
    by auto
  moreover have "{c \<in> {0..<n} \<times> {0..<n}. case c of (i, j) \<Rightarrow> bVar n i j \<in> {v \<in> set model. 0 < v}}
        = {(i, j). 0 \<le> i \<and> i < n \<and> 0 \<le> j \<and> j < n \<and> 0 < bVar n i j \<and> bVar n i j \<in> set model}"
    by auto
  moreover have "positions n model =
     ({c \<in> {0..<n} \<times> {0..<n}. case c of (i, j) \<Rightarrow> wVar n i j \<in> {v \<in> set model. 0 < v}},
      {c \<in> {0..<n} \<times> {0..<n}. case c of (i, j) \<Rightarrow> bVar n i j \<in> {v \<in> set model. 0 < v}})"
    unfolding positions_eq set_cells by auto
  ultimately show "positions n model =
            ({(i, j). 0 \<le> i \<and> i < n \<and> 0 \<le> j \<and> j < n \<and> 0 < wVar n i j \<and> wVar n i j \<in> set model},
             {(i, j). 0 \<le> i \<and> i < n \<and> 0 \<le> j \<and> j < n \<and> 0 < bVar n i j \<and> bVar n i j \<in> set model})"
    by (simp only:)
qed

theorem variable_ids_bijection_witness:
  "(1::int) \<le> 2
   \<and> bij_betw (case_sum (\<lambda>(i, j). wVar 2 i j) (\<lambda>(i, j). bVar 2 i j))
        (({0..<2} \<times> {0..<2}) <+> ({0..<2} \<times> {0..<2})) {1..2 * 2 * 2}
   \<and> wVar 2 1 1 = 4 \<and> bVar 2 1 1 = 8"
proof (intro conjI)
  show h: "(1::int) \<le> 2" by simp
  show "bij_betw (case_sum (\<lambda>(i, j). wVar 2 i j) (\<lambda>(i, j). bVar 2 i j))
        (({0..<2} \<times> {0..<2}) <+> ({0..<2} \<times> {0..<2})) {1..2 * 2 * 2}"
    using variable_ids_bijection[OF h, of "[]"] by (elim conjE)
  show "wVar 2 1 1 = 4" by (simp add: wVar_def)
  show "bVar 2 1 1 = 8" by (simp add: bVar_def)
qed

section \<open>Facts about the clause list\<close>

lemma combs_length: "c \<in> set (combs xs r) \<Longrightarrow> length c = r"
  by (induction xs r arbitrary: c rule: combs.induct) auto

lemma combs_subset: "c \<in> set (combs xs r) \<Longrightarrow> set c \<subseteq> set xs"
  by (induction xs r arbitrary: c rule: combs.induct) fastforce+

lemma combs_too_long: "length xs < r \<Longrightarrow> combs xs r = []"
  by (induction xs r rule: combs.induct) auto

lemma combs_one: "combs xs (Suc 0) = map (\<lambda>x. [x]) xs"
  by (induction xs) auto

lemma length_range1: "length (range1 n) = nat n"
  by (simp add: range1_def)

lemma length_cells: "length (cells n) = nat n * nat n"
  by (simp add: cells_def length_concat comp_def length_range1 sum_list_triv)

lemma length_cells_int: "0 \<le> n \<Longrightarrow> int (length (cells n)) = n * n"
  by (simp add: length_cells nat_mult_distrib[symmetric])

text \<open>The four cardinality families, as the loops of lines 23 to 35 append them.\<close>

lemma clausesCNF_Inr:
  assumes "- 1 \<le> k" "k \<le> n * n + 1"
  shows "clausesCNF n k =
     Inr (  [[- wVar n i j. (i, j) \<leftarrow> combi]. combi \<leftarrow> combs (cells n) (nat (k + 1))]
          @ [[- bVar n i j. (i, j) \<leftarrow> combi]. combi \<leftarrow> combs (cells n) (nat (k + 1))]
          @ [[wVar n i j. (i, j) \<leftarrow> combi]. combi \<leftarrow> combs (cells n) (nat (n * n - k + 1))]
          @ [[bVar n i j. (i, j) \<leftarrow> combi]. combi \<leftarrow> combs (cells n) (nat (n * n - k + 1))]
          @ attack_clauses n
          @ exclusive_clauses n)"
  using assms by (simp add: clausesCNF_def combinations_def Let_def)

lemma clausesCNF_Inl_low: "k < - 1 \<Longrightarrow> clausesCNF n k = Inl ValueError"
  by (simp add: clausesCNF_def combinations_def Let_def)

lemma clausesCNF_Inl_high: "n * n + 1 < k \<Longrightarrow> clausesCNF n k = Inl ValueError"
  by (simp add: clausesCNF_def combinations_def Let_def)

lemma in_range1: "0 \<le> i \<Longrightarrow> i < n \<Longrightarrow> i \<in> set (range1 n)"
  by (simp add: set_range1)

lemma nested_concat_member:
  "x \<in> set xs \<Longrightarrow> y \<in> set ys \<Longrightarrow> c \<in> set (f x y)
   \<Longrightarrow> c \<in> set (concat [f a b. a \<leftarrow> xs, b \<leftarrow> ys])"
  by auto

lemma nested_map_member:
  "x \<in> set xs \<Longrightarrow> y \<in> set ys \<Longrightarrow> g x y \<in> set [g a b. a \<leftarrow> xs, b \<leftarrow> ys]"
  by auto

lemma attack_cell_form:
  assumes "0 \<le> i" "i < n" "0 \<le> j" "j < n" "c \<in> set (attack_cell n i j)"
  shows "\<exists>i' j'. 0 \<le> i' \<and> i' < n \<and> 0 \<le> j' \<and> j' < n \<and> c = [- wVar n i j, - bVar n i' j']"
proof -
  from assms(5) consider
      (row) jj where "0 \<le> jj" "jj < n" "c = [- wVar n i j, - bVar n i jj]"
    | (col) ii where "0 \<le> ii" "ii < n" "c = [- wVar n i j, - bVar n ii j]"
    | (diag) d where "0 \<le> i + d" "i + d < n" "0 \<le> j + d" "j + d < n"
        "c = [- wVar n i j, - bVar n (i + d) (j + d)]"
    | (anti) d where "0 \<le> i + d" "i + d < n" "0 \<le> j - d" "j - d < n"
        "c = [- wVar n i j, - bVar n (i + d) (j - d)]"
    by (auto simp: attack_cell_def Let_def set_range1 set_range2)
  then show ?thesis
  proof cases
    case row
    with assms(1,2) show ?thesis by blast
  next
    case col
    with assms(3,4) show ?thesis by blast
  next
    case diag
    then show ?thesis by blast
  next
    case anti
    then show ?thesis by blast
  qed
qed

lemma attack_clauses_form:
  assumes "c \<in> set (attack_clauses n)"
  shows "\<exists>i j i' j'. 0 \<le> i \<and> i < n \<and> 0 \<le> j \<and> j < n \<and> 0 \<le> i' \<and> i' < n \<and> 0 \<le> j' \<and> j' < n
           \<and> c = [- wVar n i j, - bVar n i' j']"
proof -
  from assms obtain i j where ij: "i \<in> {0..<n}" "j \<in> {0..<n}" and c: "c \<in> set (attack_cell n i j)"
    by (auto simp: attack_clauses_def set_range1)
  from ij have b: "0 \<le> i" "i < n" "0 \<le> j" "j < n" by auto
  from attack_cell_form[OF b c] b show ?thesis by blast
qed

lemma attack_cell_row:
  assumes "0 \<le> j'" "j' < n" "j' \<noteq> j"
  shows "[- wVar n i j, - bVar n i j'] \<in> set (attack_cell n i j)"
  using assms by (auto simp: attack_cell_def Let_def set_range1)

lemma attack_cell_col:
  assumes "0 \<le> i'" "i' < n" "i' \<noteq> i"
  shows "[- wVar n i j, - bVar n i' j] \<in> set (attack_cell n i j)"
  using assms by (auto simp: attack_cell_def Let_def set_range1)

lemma attack_cell_diag:
  assumes "0 \<le> i" "i < n" "0 \<le> i + d" "i + d < n" "0 \<le> j + d" "j + d < n" "d \<noteq> 0"
  shows "[- wVar n i j, - bVar n (i + d) (j + d)] \<in> set (attack_cell n i j)"
proof -
  from assms have "d \<in> {- n + 1..<n}" by auto
  with assms show ?thesis
    by (auto simp: attack_cell_def Let_def set_range2)
qed

lemma attack_cell_anti:
  assumes "0 \<le> i" "i < n" "0 \<le> i + d" "i + d < n" "0 \<le> j - d" "j - d < n" "d \<noteq> 0"
  shows "[- wVar n i j, - bVar n (i + d) (j - d)] \<in> set (attack_cell n i j)"
proof -
  from assms have "d \<in> {- n + 1..<n}" by auto
  with assms show ?thesis
    by (auto simp: attack_cell_def Let_def set_range2)
qed

lemma attack_cell_in_clauses:
  assumes "0 \<le> i" "i < n" "0 \<le> j" "j < n" "c \<in> set (attack_cell n i j)"
  shows "c \<in> set (attack_clauses n)"
  unfolding attack_clauses_def
  by (rule nested_concat_member[of i _ j]) (use assms in \<open>simp_all add: in_range1\<close>)

lemma attack_clauses_member:
  assumes "0 \<le> i" "i < n" "0 \<le> j" "j < n" "0 \<le> i'" "i' < n" "0 \<le> j'" "j' < n"
    and "(i, j) \<noteq> (i', j')"
    and "i = i' \<or> j = j' \<or> i' - i = j' - j \<or> i' - i = j - j'"
  shows "[- wVar n i j, - bVar n i' j'] \<in> set (attack_clauses n)"
proof -
  have "[- wVar n i j, - bVar n i' j'] \<in> set (attack_cell n i j)"
  proof -
    consider (row) "i = i'" "j \<noteq> j'" | (col) "j = j'" "i \<noteq> i'"
      | (diag) "i' - i = j' - j" "i \<noteq> i'" | (anti) "i' - i = j - j'" "i \<noteq> i'"
      using assms(9,10) by auto
    then show ?thesis
    proof cases
      case row
      with assms attack_cell_row[of j' n j i] show ?thesis by simp
    next
      case col
      with assms attack_cell_col[of i' n i j] show ?thesis by simp
    next
      case diag
      define d where "d = i' - i"
      have e: "i + d = i'" "j + d = j'" "d \<noteq> 0"
        using diag by (simp_all add: d_def)
      have "[- wVar n i j, - bVar n (i + d) (j + d)] \<in> set (attack_cell n i j)"
        by (rule attack_cell_diag) (use assms e in simp_all)
      then show ?thesis by (simp only: e)
    next
      case anti
      define d where "d = i' - i"
      have e: "i + d = i'" "j - d = j'" "d \<noteq> 0"
        using anti by (simp_all add: d_def)
      have "[- wVar n i j, - bVar n (i + d) (j - d)] \<in> set (attack_cell n i j)"
        by (rule attack_cell_anti) (use assms e in simp_all)
      then show ?thesis by (simp only: e)
    qed
  qed
  with assms show ?thesis by (simp add: attack_cell_in_clauses)
qed

lemma exclusive_clauses_member:
  assumes "0 \<le> i" "i < n" "0 \<le> j" "j < n"
  shows "[- wVar n i j, - bVar n i j] \<in> set (exclusive_clauses n)"
  unfolding exclusive_clauses_def
  by (rule nested_map_member[of i _ j]) (use assms in \<open>simp_all add: in_range1\<close>)

lemma exclusive_clauses_form:
  assumes "c \<in> set (exclusive_clauses n)"
  shows "\<exists>i j. 0 \<le> i \<and> i < n \<and> 0 \<le> j \<and> j < n \<and> c = [- wVar n i j, - bVar n i j]"
proof -
  from assms obtain i j where "i \<in> {0..<n}" "j \<in> {0..<n}" "c = [- wVar n i j, - bVar n i j]"
    by (auto simp: exclusive_clauses_def set_range1)
  then show ?thesis by auto
qed

lemma wVar_range:
  assumes "0 \<le> i" "i < n" "0 \<le> j" "j < n"
  shows "1 \<le> wVar n i j" and "wVar n i j \<le> n * n"
  using cell_index_bounds[OF assms] by (simp_all add: wVar_def)

lemma bVar_range:
  assumes "0 \<le> i" "i < n" "0 \<le> j" "j < n"
  shows "n * n + 1 \<le> bVar n i j" and "bVar n i j \<le> 2 * n * n"
  using cell_index_bounds[OF assms] by (simp_all add: bVar_def)

section \<open>What the formula says\<close>

lemma satisfies_member: "satisfies \<sigma> clauses \<Longrightarrow> c \<in> set clauses \<Longrightarrow> clause_true \<sigma> c"
  by (simp add: satisfies_def list_all_iff)

lemma satisfies_iff: "satisfies \<sigma> clauses \<longleftrightarrow> (\<forall>c \<in> set clauses. clause_true \<sigma> c)"
  by (simp add: satisfies_def list_all_iff)

lemma clause_true_iff: "clause_true \<sigma> c \<longleftrightarrow> (\<exists>l \<in> set c. lit_true \<sigma> l)"
  by (simp add: clause_true_def list_ex_iff)

lemma clause_true_neg_pair:
  assumes "1 \<le> a" "1 \<le> b"
  shows "clause_true \<sigma> [- a, - b] \<longleftrightarrow> \<not> (\<sigma> a \<and> \<sigma> b)"
  using assms by (simp add: clause_true_def lit_true_def)

lemma writeCNF_Inr:
  assumes "clausesCNF n k = Inr clauses"
  shows "writeCNF n k outputFile fs = Inr (fs(outputFile \<mapsto> dimacs (2 * n * n) clauses))"
  using assms by (simp add: writeCNF_def Let_def)

lemma writeCNF_Inl:
  assumes "clausesCNF n k = Inl e"
  shows "writeCNF n k outputFile fs = Inl e"
  using assms by (simp add: writeCNF_def)

text \<open>
  C1. For \<open>n \<ge> 1\<close>, \<open>0 \<le> k \<le> n * n\<close> and two distinct cells \<open>(i, j)\<close>, \<open>(i', j')\<close> of the
  board in one row, one column or one diagonal, \<open>writeCNF\<close> returns normally, the clause
  list it writes contains the binary clause \<open>[- wVar n i j, - bVar n i' j']\<close>, and so no
  assignment satisfying the formula makes both \<open>wVar n i j\<close> and \<open>bVar n i' j'\<close> true.
\<close>

theorem attack_pair_clause:
  assumes "1 \<le> n" "0 \<le> k" "k \<le> n * n"
    and "0 \<le> i" "i < n" "0 \<le> j" "j < n" "0 \<le> i'" "i' < n" "0 \<le> j'" "j' < n"
    and "(i, j) \<noteq> (i', j')"
    and "i = i' \<or> j = j' \<or> i' - i = j' - j \<or> i' - i = j - j'"
  shows "\<exists>clauses. clausesCNF n k = Inr clauses
           \<and> writeCNF n k outputFile fs = Inr (fs(outputFile \<mapsto> dimacs (2 * n * n) clauses))
           \<and> [- wVar n i j, - bVar n i' j'] \<in> set clauses
           \<and> (\<forall>\<sigma>. satisfies \<sigma> clauses \<longrightarrow> \<not> (\<sigma> (wVar n i j) \<and> \<sigma> (bVar n i' j')))"
proof -
  from assms(2,3) have k: "- 1 \<le> k" "k \<le> n * n + 1" by simp_all
  from clausesCNF_Inr[OF k] obtain pre where
    c: "clausesCNF n k = Inr (pre @ attack_clauses n @ exclusive_clauses n)"
    by (metis append.assoc)
  let ?cl = "pre @ attack_clauses n @ exclusive_clauses n"
  have m: "[- wVar n i j, - bVar n i' j'] \<in> set ?cl"
    using attack_clauses_member[OF assms(4-13)] by simp
  have w: "1 \<le> wVar n i j" by (rule wVar_range(1)[OF assms(4-7)])
  have "0 \<le> n * n" by simp
  with bVar_range(1)[OF assms(8-11)] have b: "1 \<le> bVar n i' j'" by linarith
  have "\<not> (\<sigma> (wVar n i j) \<and> \<sigma> (bVar n i' j'))" if "satisfies \<sigma> ?cl" for \<sigma>
    using satisfies_member[OF that m] clause_true_neg_pair[OF w b] by simp
  with c m writeCNF_Inr[OF c] show ?thesis by blast
qed

theorem attack_pair_clause_witness:
  "\<exists>clauses. clausesCNF 2 1 = Inr clauses \<and> [- 1, - 6] \<in> set clauses
      \<and> \<not> satisfies (\<lambda>v. v = 1 \<or> v = 6) clauses"
proof -
  have "\<exists>clauses. clausesCNF 2 1 = Inr clauses
           \<and> writeCNF 2 1 ''tmp.cnf'' Map.empty = Inr (Map.empty(''tmp.cnf'' \<mapsto> dimacs (2 * 2 * 2) clauses))
           \<and> [- wVar 2 0 0, - bVar 2 0 1] \<in> set clauses
           \<and> (\<forall>\<sigma>. satisfies \<sigma> clauses \<longrightarrow> \<not> (\<sigma> (wVar 2 0 0) \<and> \<sigma> (bVar 2 0 1)))"
    by (rule attack_pair_clause) simp_all
  then obtain clauses where c: "clausesCNF 2 1 = Inr clauses"
    and m: "[- wVar 2 0 0, - bVar 2 0 1] \<in> set clauses"
    and s: "\<forall>\<sigma>. satisfies \<sigma> clauses \<longrightarrow> \<not> (\<sigma> (wVar 2 0 0) \<and> \<sigma> (bVar 2 0 1))"
    by blast
  have e: "wVar 2 0 0 = 1" "bVar 2 0 1 = 6" by (simp_all add: wVar_def bVar_def)
  from s have "\<not> satisfies (\<lambda>v. v = 1 \<or> v = 6) clauses"
    unfolding e by fastforce
  with c m show ?thesis unfolding e by blast
qed

lemma cell_of_comb:
  assumes "combi \<in> set (combs (cells n) r)" "(i, j) \<in> set combi"
  shows "0 \<le> i \<and> i < n \<and> 0 \<le> j \<and> j < n"
proof -
  from combs_subset[OF assms(1)] assms(2) have "(i, j) \<in> set (cells n)" by blast
  then show ?thesis by (simp add: set_cells)
qed

lemma cardinality_clause_lits:
  assumes "combi \<in> set (combs (cells n) r)" "l \<in> set [f i j. (i, j) \<leftarrow> combi]"
  shows "\<exists>i j. 0 \<le> i \<and> i < n \<and> 0 \<le> j \<and> j < n \<and> l = f i j"
proof -
  from assms(2) obtain i j where "(i, j) \<in> set combi" "l = f i j" by auto
  with cell_of_comb[OF assms(1)] show ?thesis by blast
qed

lemma cardinality_clause_nonempty:
  assumes "combi \<in> set (combs (cells n) r)" "0 < r"
  shows "[f i j. (i, j) \<leftarrow> combi] \<noteq> []"
  using combs_length[OF assms(1)] assms(2) by auto

lemma wVar_lit_ok:
  assumes "0 \<le> i \<and> i < n \<and> 0 \<le> j \<and> j < n"
  shows "wVar n i j \<noteq> 0 \<and> 1 \<le> \<bar>wVar n i j\<bar> \<and> \<bar>wVar n i j\<bar> \<le> 2 * n * n"
    and "- wVar n i j \<noteq> 0 \<and> 1 \<le> \<bar>- wVar n i j\<bar> \<and> \<bar>- wVar n i j\<bar> \<le> 2 * n * n"
proof -
  from assms have a: "0 \<le> i" "i < n" "0 \<le> j" "j < n" by simp_all
  have "0 \<le> n * n" by simp
  with wVar_range[OF a] have "1 \<le> wVar n i j" "wVar n i j \<le> 2 * (n * n)" by linarith+
  then show "wVar n i j \<noteq> 0 \<and> 1 \<le> \<bar>wVar n i j\<bar> \<and> \<bar>wVar n i j\<bar> \<le> 2 * n * n"
    and "- wVar n i j \<noteq> 0 \<and> 1 \<le> \<bar>- wVar n i j\<bar> \<and> \<bar>- wVar n i j\<bar> \<le> 2 * n * n"
    by (simp_all add: mult.assoc)
qed

lemma bVar_lit_ok:
  assumes "0 \<le> i \<and> i < n \<and> 0 \<le> j \<and> j < n"
  shows "bVar n i j \<noteq> 0 \<and> 1 \<le> \<bar>bVar n i j\<bar> \<and> \<bar>bVar n i j\<bar> \<le> 2 * n * n"
    and "- bVar n i j \<noteq> 0 \<and> 1 \<le> \<bar>- bVar n i j\<bar> \<and> \<bar>- bVar n i j\<bar> \<le> 2 * n * n"
proof -
  from assms have a: "0 \<le> i" "i < n" "0 \<le> j" "j < n" by simp_all
  have "0 \<le> n * n" by simp
  with bVar_range[OF a] have "1 \<le> bVar n i j" "bVar n i j \<le> 2 * n * n" by linarith+
  then show "bVar n i j \<noteq> 0 \<and> 1 \<le> \<bar>bVar n i j\<bar> \<and> \<bar>bVar n i j\<bar> \<le> 2 * n * n"
    and "- bVar n i j \<noteq> 0 \<and> 1 \<le> \<bar>- bVar n i j\<bar> \<and> \<bar>- bVar n i j\<bar> \<le> 2 * n * n"
    by simp_all
qed

text \<open>One family of cardinality clauses: non-empty clauses of literals in range.\<close>

lemma cardinality_family_ok:
  assumes r: "0 < r"
    and f: "\<And>i j. 0 \<le> i \<and> i < n \<and> 0 \<le> j \<and> j < n \<Longrightarrow> f i j \<noteq> 0 \<and> 1 \<le> \<bar>f i j\<bar> \<and> \<bar>f i j\<bar> \<le> 2 * n * n"
    and c: "c \<in> set [[f i j. (i, j) \<leftarrow> combi]. combi \<leftarrow> combs (cells n) r]"
  shows "c \<noteq> [] \<and> (\<forall>l \<in> set c. l \<noteq> 0 \<and> 1 \<le> \<bar>l\<bar> \<and> \<bar>l\<bar> \<le> 2 * n * n)"
proof -
  from c obtain combi where m: "combi \<in> set (combs (cells n) r)"
    and e: "c = [f i j. (i, j) \<leftarrow> combi]" by auto
  have "c \<noteq> []" unfolding e by (rule cardinality_clause_nonempty[OF m r])
  moreover have "l \<noteq> 0 \<and> 1 \<le> \<bar>l\<bar> \<and> \<bar>l\<bar> \<le> 2 * n * n" if "l \<in> set c" for l
  proof -
    from that cardinality_clause_lits[OF m, of l f] obtain i j
      where "0 \<le> i \<and> i < n \<and> 0 \<le> j \<and> j < n" "l = f i j" unfolding e by blast
    with f show ?thesis by simp
  qed
  ultimately show ?thesis by blast
qed

lemma neg_pair_ok:
  assumes "0 \<le> i \<and> i < n \<and> 0 \<le> j \<and> j < n" "0 \<le> i' \<and> i' < n \<and> 0 \<le> j' \<and> j' < n"
    and "c = [- wVar n i j, - bVar n i' j']"
  shows "c \<noteq> [] \<and> (\<forall>l \<in> set c. l \<noteq> 0 \<and> 1 \<le> \<bar>l\<bar> \<and> \<bar>l\<bar> \<le> 2 * n * n)"
  using wVar_lit_ok(2)[OF assms(1)] bVar_lit_ok(2)[OF assms(2)] assms(3) by simp

text \<open>
  C10. For \<open>n \<ge> 1\<close> and \<open>0 \<le> k \<le> n * n\<close>, \<open>writeCNF\<close> returns normally and every clause it
  accumulated is non-empty and made of non-zero literals whose absolute value lies between
  \<open>1\<close> and \<open>2 * n * n\<close>, the variable count declared in the header.
\<close>

theorem literals_in_range:
  assumes "1 \<le> n" "0 \<le> k" "k \<le> n * n"
  shows "\<exists>clauses. clausesCNF n k = Inr clauses
           \<and> writeCNF n k outputFile fs = Inr (fs(outputFile \<mapsto> dimacs (2 * n * n) clauses))
           \<and> (\<forall>c \<in> set clauses. c \<noteq> [] \<and> (\<forall>l \<in> set c. l \<noteq> 0 \<and> 1 \<le> \<bar>l\<bar> \<and> \<bar>l\<bar> \<le> 2 * n * n))"
proof -
  from assms(2,3) have k: "- 1 \<le> k" "k \<le> n * n + 1" by simp_all
  let ?amW = "[[- wVar n i j. (i, j) \<leftarrow> combi]. combi \<leftarrow> combs (cells n) (nat (k + 1))]"
  let ?amB = "[[- bVar n i j. (i, j) \<leftarrow> combi]. combi \<leftarrow> combs (cells n) (nat (k + 1))]"
  let ?alW = "[[wVar n i j. (i, j) \<leftarrow> combi]. combi \<leftarrow> combs (cells n) (nat (n * n - k + 1))]"
  let ?alB = "[[bVar n i j. (i, j) \<leftarrow> combi]. combi \<leftarrow> combs (cells n) (nat (n * n - k + 1))]"
  let ?cl = "?amW @ ?amB @ ?alW @ ?alB @ attack_clauses n @ exclusive_clauses n"
  let ?ok = "\<lambda>c. c \<noteq> [] \<and> (\<forall>l \<in> set c. l \<noteq> 0 \<and> 1 \<le> \<bar>l\<bar> \<and> \<bar>l\<bar> \<le> 2 * n * n)"
  have c: "clausesCNF n k = Inr ?cl" by (rule clausesCNF_Inr[OF k])
  from assms have r1: "0 < nat (k + 1)" and r2: "0 < nat (n * n - k + 1)" by simp_all
  have 1: "?ok c" if "c \<in> set ?amW" for c
    by (rule cardinality_family_ok[OF r1 _ that]) (rule wVar_lit_ok(2))
  have 2: "?ok c" if "c \<in> set ?amB" for c
    by (rule cardinality_family_ok[OF r1 _ that]) (rule bVar_lit_ok(2))
  have 3: "?ok c" if "c \<in> set ?alW" for c
    by (rule cardinality_family_ok[OF r2 _ that]) (rule wVar_lit_ok(1))
  have 4: "?ok c" if "c \<in> set ?alB" for c
    by (rule cardinality_family_ok[OF r2 _ that]) (rule bVar_lit_ok(1))
  have 5: "?ok c" if "c \<in> set (attack_clauses n)" for c
  proof -
    from attack_clauses_form[OF that] obtain i j i' j' where
      "0 \<le> i \<and> i < n \<and> 0 \<le> j \<and> j < n" "0 \<le> i' \<and> i' < n \<and> 0 \<le> j' \<and> j' < n"
      "c = [- wVar n i j, - bVar n i' j']" by blast
    then show ?thesis by (rule neg_pair_ok)
  qed
  have 6: "?ok c" if "c \<in> set (exclusive_clauses n)" for c
  proof -
    from exclusive_clauses_form[OF that] obtain i j where
      "0 \<le> i \<and> i < n \<and> 0 \<le> j \<and> j < n" "c = [- wVar n i j, - bVar n i j]" by blast
    then show ?thesis by (intro neg_pair_ok[of i n j i j])
  qed
  have "?ok c" if "c \<in> set ?cl" for c
  proof -
    from that have "c \<in> set ?amW \<or> c \<in> set ?amB \<or> c \<in> set ?alW \<or> c \<in> set ?alB
        \<or> c \<in> set (attack_clauses n) \<or> c \<in> set (exclusive_clauses n)"
      by (simp only: set_append Un_iff)
    with 1 2 3 4 5 6 show ?thesis by blast
  qed
  then have "\<forall>c \<in> set ?cl. ?ok c" by blast
  with c writeCNF_Inr[OF c] show ?thesis by blast
qed

theorem literals_in_range_witness:
  "clausesCNF 1 0 = Inr [[- 1], [- 2], [- 1, - 2]]
   \<and> list_all (\<lambda>c. c \<noteq> [] \<and> list_all (\<lambda>l. l \<noteq> 0 \<and> 1 \<le> \<bar>l\<bar> \<and> \<bar>l\<bar> \<le> 2 * 1 * 1) c)
        [[- 1], [- 2], [- 1, - 2 :: int]]"
proof -
  have e: "clausesCNF 1 0 = Inr [[- 1], [- 2], [- 1, - 2]]"
    by code_simp
  have "\<exists>clauses. clausesCNF 1 0 = Inr clauses
           \<and> writeCNF 1 0 ''tmp.cnf'' Map.empty = Inr (Map.empty(''tmp.cnf'' \<mapsto> dimacs (2 * 1 * 1) clauses))
           \<and> (\<forall>c \<in> set clauses. c \<noteq> [] \<and> (\<forall>l \<in> set c. l \<noteq> 0 \<and> 1 \<le> \<bar>l\<bar> \<and> \<bar>l\<bar> \<le> 2 * 1 * 1))"
    by (rule literals_in_range) simp_all
  then have "\<forall>c \<in> set [[- 1], [- 2], [- 1, - 2 :: int]].
      c \<noteq> [] \<and> (\<forall>l \<in> set c. l \<noteq> 0 \<and> 1 \<le> \<bar>l\<bar> \<and> \<bar>l\<bar> \<le> 2 * 1 * 1)"
    unfolding e by blast
  then have "list_all (\<lambda>c. c \<noteq> [] \<and> list_all (\<lambda>l. l \<noteq> 0 \<and> 1 \<le> \<bar>l\<bar> \<and> \<bar>l\<bar> \<le> 2 * 1 * 1) c)
        [[- 1], [- 2], [- 1, - 2 :: int]]"
    unfolding list_all_iff .
  with e show ?thesis by (intro conjI)
qed

lemma lit_true_neg_all_false: "l < 0 \<Longrightarrow> lit_true (\<lambda>_. False) l"
  by (simp add: lit_true_def)

lemma unit_clauses_of_cells:
  "[[f i j. (i, j) \<leftarrow> combi]. combi \<leftarrow> combs (cells n) (Suc 0)] = [[f i j]. (i, j) \<leftarrow> cells n]"
  by (simp add: combs_one comp_def case_prod_beta)

lemma unit_clause_form:
  "c \<in> set [[f i j]. (i, j) \<leftarrow> cs] \<Longrightarrow> \<exists>i j. (i, j) \<in> set cs \<and> c = [f i j]"
  by auto

lemma unit_clause_member:
  "(i, j) \<in> set cs \<Longrightarrow> [f i j] \<in> set [[f i j]. (i, j) \<leftarrow> cs]"
  by force

lemma cell_origin: "1 \<le> n \<Longrightarrow> (0, 0) \<in> set (cells n)"
  by (simp add: set_cells)

text \<open>With \<open>k = 0\<close> every clause holds a negative literal.\<close>

lemma k0_clause_has_negative:
  assumes "1 \<le> n" "clausesCNF n 0 = Inr clauses" "c \<in> set clauses"
  shows "\<exists>l \<in> set c. l < 0"
proof -
  have k: "- 1 \<le> (0::int)" "0 \<le> n * n + 1" by simp_all
  have "combs (cells n) (nat (n * n - 0 + 1)) = []"
  proof (rule combs_too_long)
    from assms(1) have "int (length (cells n)) = n * n" by (simp add: length_cells_int)
    then show "length (cells n) < nat (n * n - 0 + 1)" by linarith
  qed
  with clausesCNF_Inr[OF k] assms(2) have cl: "clauses =
       [[- wVar n i j. (i, j) \<leftarrow> combi]. combi \<leftarrow> combs (cells n) (Suc 0)]
     @ [[- bVar n i j. (i, j) \<leftarrow> combi]. combi \<leftarrow> combs (cells n) (Suc 0)]
     @ attack_clauses n @ exclusive_clauses n"
    by simp
  from assms(3) have "c \<in> set [[- wVar n i j]. (i, j) \<leftarrow> cells n]
      \<or> c \<in> set [[- bVar n i j]. (i, j) \<leftarrow> cells n]
      \<or> c \<in> set (attack_clauses n) \<or> c \<in> set (exclusive_clauses n)"
    by (simp only: cl unit_clauses_of_cells set_append Un_iff)
  then consider
      (w) "c \<in> set [[- wVar n i j]. (i, j) \<leftarrow> cells n]"
    | (b) "c \<in> set [[- bVar n i j]. (i, j) \<leftarrow> cells n]"
    | (a) "c \<in> set (attack_clauses n)" | (e) "c \<in> set (exclusive_clauses n)"
    by blast
  then show ?thesis
  proof cases
    case w
    from unit_clause_form[OF w] obtain i j where "(i, j) \<in> set (cells n)" "c = [- wVar n i j]"
      by blast
    with wVar_range(1)[of i n j] show ?thesis by (simp add: set_cells)
  next
    case b
    from unit_clause_form[OF b] obtain i j where ij: "(i, j) \<in> set (cells n)" "c = [- bVar n i j]"
      by blast
    from ij(1) have "0 \<le> i" "i < n" "0 \<le> j" "j < n" by (simp_all add: set_cells)
    from bVar_range(1)[OF this] have "n * n + 1 \<le> bVar n i j" .
    moreover have "0 \<le> n * n" by simp
    ultimately have "- bVar n i j < 0" by linarith
    with ij(2) show ?thesis by simp
  next
    case a
    from attack_clauses_form[OF a] obtain i j i' j' where
      "0 \<le> i" "i < n" "0 \<le> j" "j < n" "c = [- wVar n i j, - bVar n i' j']" by blast
    with wVar_range(1)[of i n j] show ?thesis by simp
  next
    case e
    from exclusive_clauses_form[OF e] obtain i j where
      "0 \<le> i" "i < n" "0 \<le> j" "j < n" "c = [- wVar n i j, - bVar n i j]" by blast
    with wVar_range(1)[of i n j] show ?thesis by simp
  qed
qed

lemma k_full_unsat:
  assumes "1 \<le> n" "clausesCNF n (n * n) = Inr clauses"
  shows "\<not> satisfies \<sigma> clauses"
proof
  assume s: "satisfies \<sigma> clauses"
  have "0 \<le> n * n" by simp
  then have k: "- 1 \<le> n * n" "n * n \<le> n * n + 1" by linarith+
  have r: "nat (n * n - n * n + 1) = Suc 0" by simp
  from clausesCNF_Inr[OF k] assms(2) obtain pre where cl: "clauses =
       pre
     @ [[wVar n i j]. (i, j) \<leftarrow> cells n]
     @ [[bVar n i j]. (i, j) \<leftarrow> cells n]
     @ attack_clauses n @ exclusive_clauses n"
    unfolding r unit_clauses_of_cells by (metis append.assoc sum.inject(2))
  from cell_origin[OF assms(1)] have o: "(0, 0) \<in> set (cells n)" .
  have "[wVar n 0 0] \<in> set [[wVar n i j]. (i, j) \<leftarrow> cells n]"
    using o by (rule unit_clause_member)
  then have "[wVar n 0 0] \<in> set clauses" unfolding cl by simp
  from satisfies_member[OF s this] have w: "lit_true \<sigma> (wVar n 0 0)"
    by (simp add: clause_true_def)
  have "[bVar n 0 0] \<in> set [[bVar n i j]. (i, j) \<leftarrow> cells n]"
    using o by (rule unit_clause_member)
  then have "[bVar n 0 0] \<in> set clauses" unfolding cl by simp
  from satisfies_member[OF s this] have b: "lit_true \<sigma> (bVar n 0 0)"
    by (simp add: clause_true_def)
  have "[- wVar n 0 0, - bVar n 0 0] \<in> set (exclusive_clauses n)"
    by (rule exclusive_clauses_member) (use assms(1) in simp_all)
  then have "[- wVar n 0 0, - bVar n 0 0] \<in> set clauses" unfolding cl by simp
  from satisfies_member[OF s this] have x: "clause_true \<sigma> [- wVar n 0 0, - bVar n 0 0]" .
  have w1: "1 \<le> wVar n 0 0" by (simp add: wVar_def)
  have b1: "1 \<le> bVar n 0 0" using \<open>0 \<le> n * n\<close> by (simp add: bVar_def)
  from w b w1 b1 have "\<sigma> (wVar n 0 0) \<and> \<sigma> (bVar n 0 0)" by (simp add: lit_true_def)
  with x clause_true_neg_pair[OF w1 b1] show False by simp
qed

text \<open>
  C2. For \<open>n \<ge> 1\<close>: with \<open>k = 0\<close> the formula \<open>writeCNF\<close> writes is satisfied by the
  assignment that makes every variable false; with \<open>k = n * n\<close> no assignment satisfies it
  (the unit clauses of both armies for one cell contradict that cell's exclusivity clause).
\<close>

theorem boundary_k:
  assumes "1 \<le> n"
  shows "(\<exists>clauses. clausesCNF n 0 = Inr clauses
             \<and> writeCNF n 0 outputFile fs = Inr (fs(outputFile \<mapsto> dimacs (2 * n * n) clauses))
             \<and> satisfies (\<lambda>_. False) clauses)
       \<and> (\<exists>clauses. clausesCNF n (n * n) = Inr clauses
             \<and> writeCNF n (n * n) outputFile fs = Inr (fs(outputFile \<mapsto> dimacs (2 * n * n) clauses))
             \<and> (\<forall>\<sigma>. \<not> satisfies \<sigma> clauses))"
proof (rule conjI)
  have k: "- 1 \<le> (0::int)" "0 \<le> n * n + 1" by simp_all
  from clausesCNF_Inr[OF k] obtain clauses where c: "clausesCNF n 0 = Inr clauses" by blast
  have "clause_true (\<lambda>_. False) cl" if "cl \<in> set clauses" for cl
    using k0_clause_has_negative[OF assms c that] lit_true_neg_all_false
    unfolding clause_true_iff by blast
  then have "satisfies (\<lambda>_. False) clauses" unfolding satisfies_iff by blast
  with c writeCNF_Inr[OF c] show "\<exists>clauses. clausesCNF n 0 = Inr clauses
             \<and> writeCNF n 0 outputFile fs = Inr (fs(outputFile \<mapsto> dimacs (2 * n * n) clauses))
             \<and> satisfies (\<lambda>_. False) clauses" by blast
next
  have "0 \<le> n * n" by simp
  then have k: "- 1 \<le> n * n" "n * n \<le> n * n + 1" by linarith+
  from clausesCNF_Inr[OF k] obtain clauses where c: "clausesCNF n (n * n) = Inr clauses" by blast
  from k_full_unsat[OF assms c] have "\<forall>\<sigma>. \<not> satisfies \<sigma> clauses" by blast
  with c writeCNF_Inr[OF c] show "\<exists>clauses. clausesCNF n (n * n) = Inr clauses
             \<and> writeCNF n (n * n) outputFile fs = Inr (fs(outputFile \<mapsto> dimacs (2 * n * n) clauses))
             \<and> (\<forall>\<sigma>. \<not> satisfies \<sigma> clauses)" by blast
qed

theorem boundary_k_witness:
  "(1::int) \<le> 2
   \<and> (\<exists>clauses. clausesCNF 2 0 = Inr clauses \<and> satisfies (\<lambda>_. False) clauses)
   \<and> (\<exists>clauses. clausesCNF 2 (2 * 2) = Inr clauses \<and> \<not> satisfies (\<lambda>_. True) clauses)"
proof (intro conjI)
  show h: "(1::int) \<le> 2" by simp
  from boundary_k[OF h, of "''tmp.cnf''" Map.empty]
  show "\<exists>clauses. clausesCNF 2 0 = Inr clauses \<and> satisfies (\<lambda>_. False) clauses"
    by blast
  from boundary_k[OF h, of "''tmp.cnf''" Map.empty]
  show "\<exists>clauses. clausesCNF 2 (2 * 2) = Inr clauses \<and> \<not> satisfies (\<lambda>_. True) clauses"
    by blast
qed

section \<open>Parameters outside the range\<close>

lemma empty_clause_unsat: "[] \<in> set clauses \<Longrightarrow> \<not> satisfies \<sigma> clauses"
proof
  assume "[] \<in> set clauses" "satisfies \<sigma> clauses"
  then have "clause_true \<sigma> []" by (rule satisfies_member[rotated])
  then show False by (simp add: clause_true_def)
qed

lemma k_minus_one_empty_clause:
  assumes "clausesCNF n (- 1) = Inr clauses"
  shows "[] \<in> set clauses"
proof -
  have "0 \<le> n * n" by simp
  then have k: "- 1 \<le> (- 1 :: int)" "- 1 \<le> n * n + 1" by linarith+
  from clausesCNF_Inr[OF k] assms show ?thesis by auto
qed

lemma k_above_empty_clause:
  assumes "clausesCNF n (n * n + 1) = Inr clauses"
  shows "[] \<in> set clauses"
proof -
  have "0 \<le> n * n" by simp
  then have k: "- 1 \<le> n * n + 1" "n * n + 1 \<le> n * n + 1" by linarith+
  from clausesCNF_Inr[OF k] assms show ?thesis by auto
qed

lemma combinations_on_granted:
  assumes "in_ssize m r" and "0 \<le> r \<longrightarrow> grants m (nat r)"
  shows "combinations_on m xs r = combinations xs r"
  using assms by (simp add: combinations_on_def combinations_def)

lemma clausesCNF_on_granted:
  assumes c: "clausesCNF n k = Inr clauses"
    and s: "in_ssize m (k + 1)" "in_ssize m (n * n - k + 1)"
    and g: "grants m (length (cells n))" "grants m (nat (k + 1))" "grants m (nat (n * n - k + 1))"
           "grants m (length clauses)"
  shows "clausesCNF_on m n k = Inr clauses"
proof -
  have 1: "combinations_on m (cells n) (k + 1) = combinations (cells n) (k + 1)"
    by (rule combinations_on_granted) (simp_all add: s g)
  have 2: "combinations_on m (cells n) (n * n - k + 1) = combinations (cells n) (n * n - k + 1)"
    by (rule combinations_on_granted) (simp_all add: s g)
  from c g(1,4) show ?thesis
    unfolding clausesCNF_on_def clausesCNF_def Let_def 1 2
    by (auto split: sum.splits)
qed

lemma clausesCNF_on_raises:
  assumes "k < - 1 \<or> n * n + 1 < k"
  shows "clausesCNF_on m n k =
           Inl (if \<not> grants m (length (cells n)) then MemoryError
                else if \<not> in_ssize m (k + 1) then OverflowError
                else if k + 1 < 0 then ValueError
                else if \<not> grants m (nat (k + 1)) then MemoryError
                else if \<not> in_ssize m (n * n - k + 1) then OverflowError
                else ValueError)"
proof -
  have "0 \<le> n * n" by simp
  with assms have "k + 1 < 0 \<or> n * n - k + 1 < 0" by linarith
  then show ?thesis
    unfolding clausesCNF_on_def Let_def combinations_on_def
    by (auto split: sum.splits)
qed


lemma writeCNF_on_Inl: "clausesCNF_on m n k = Inl e \<Longrightarrow> writeCNF_on m n k outputFile fs = Inl e"
  by (simp add: writeCNF_on_def)

lemma writeCNF_on_Inr:
  "clausesCNF_on m n k = Inr clauses \<Longrightarrow> writable m outputFile \<Longrightarrow>
   writeCNF_on m n k outputFile fs = Inr (fs(outputFile \<mapsto> dimacs (2 * n * n) clauses))"
  by (simp add: writeCNF_on_def)

text \<open>
  On a 64-bit machine that grants every block below \<open>2 ^ 60\<close> words, the call
  \<open>writeCNF(1, -2, "tmp.cnf")\<close> does not return: \<open>itertools.combinations\<close> is asked for
  subsets of size \<open>-1\<close> and raises \<open>ValueError\<close>.
\<close>

theorem out_of_range_k_raises_counterexample:
  "(1::int) \<le> 1 \<and> (- 2 :: int) < 0
   \<and> writeCNF_on (machine64 (\<lambda>s. True) (\<lambda>p. True)) 1 (- 2) ''tmp.cnf'' Map.empty = Inl ValueError"
  by (simp add: writeCNF_on_def clausesCNF_on_raises machine64_def length_cells)

text \<open>
  C5, as the code has it. For \<open>n \<ge> 1\<close>, on any machine. When \<open>k = -1\<close> or
  \<open>k = n * n + 1\<close> and nothing in the environment fails (the sizes \<open>0\<close> and \<open>n * n + 2\<close> fit
  \<open>ssize_t\<close>, the blocks for the index arrays, the cell lists and the clause list are
  granted, the path can be opened for writing), \<open>writeCNF\<close> returns normally and the
  formula it writes holds the empty clause, so nothing satisfies it. When \<open>k < -1\<close> or
  \<open>k > n * n + 1\<close>, \<open>writeCNF\<close> raises before the file is opened, whatever the environment:
  \<open>MemoryError\<close> when the cell lists are not granted, else \<open>OverflowError\<close> when \<open>k + 1\<close>
  does not fit \<open>ssize_t\<close>, else \<open>ValueError\<close> when \<open>k + 1\<close> is negative, else
  \<open>MemoryError\<close> when the array of \<open>k + 1\<close> indices is not granted, else \<open>OverflowError\<close>
  when \<open>n * n - k + 1\<close> does not fit \<open>ssize_t\<close>, else \<open>ValueError\<close> for this negative size.
\<close>

theorem out_of_range_k:
  assumes "1 \<le> n"
  shows "(k = - 1 \<or> k = n * n + 1 \<longrightarrow>
            in_ssize m 0 \<and> in_ssize m (n * n + 2)
            \<and> grants m 0 \<and> grants m (nat (n * n + 2)) \<and> grants m (length (cells n))
            \<and> (\<forall>cs. clausesCNF n k = Inr cs \<longrightarrow> grants m (length cs))
            \<and> writable m outputFile \<longrightarrow>
            (\<exists>clauses. writeCNF_on m n k outputFile fs = Inr (fs(outputFile \<mapsto> dimacs (2 * n * n) clauses))
               \<and> [] \<in> set clauses \<and> (\<forall>\<sigma>. \<not> satisfies \<sigma> clauses)))
       \<and> (k < - 1 \<or> n * n + 1 < k \<longrightarrow>
            writeCNF_on m n k outputFile fs =
              Inl (if \<not> grants m (length (cells n)) then MemoryError
                   else if \<not> in_ssize m (k + 1) then OverflowError
                   else if k + 1 < 0 then ValueError
                   else if \<not> grants m (nat (k + 1)) then MemoryError
                   else if \<not> in_ssize m (n * n - k + 1) then OverflowError
                   else ValueError))"
proof (intro conjI impI)
  assume kk: "k = - 1 \<or> k = n * n + 1"
  assume env: "in_ssize m 0 \<and> in_ssize m (n * n + 2)
            \<and> grants m 0 \<and> grants m (nat (n * n + 2)) \<and> grants m (length (cells n))
            \<and> (\<forall>cs. clausesCNF n k = Inr cs \<longrightarrow> grants m (length cs))
            \<and> writable m outputFile"
  have "0 \<le> n * n" by simp
  with kk have k: "- 1 \<le> k" "k \<le> n * n + 1" by linarith+
  from clausesCNF_Inr[OF k] obtain clauses where c: "clausesCNF n k = Inr clauses" by blast
  from kk c have e: "[] \<in> set clauses"
    using k_minus_one_empty_clause k_above_empty_clause by blast
  from empty_clause_unsat[OF e] have u: "\<forall>\<sigma>. \<not> satisfies \<sigma> clauses" by blast
  from kk have r: "(k + 1 = 0 \<and> n * n - k + 1 = n * n + 2) \<or> (k + 1 = n * n + 2 \<and> n * n - k + 1 = 0)"
    by linarith
  from env have e0: "in_ssize m 0" "in_ssize m (n * n + 2)" "grants m (nat 0)" "grants m (nat (n * n + 2))"
    by simp_all
  from r e0(1,2) have s: "in_ssize m (k + 1)" "in_ssize m (n * n - k + 1)"
    by metis+
  from r e0(3,4) have g: "grants m (nat (k + 1))" "grants m (nat (n * n - k + 1))"
    by metis+
  from env c have gl: "grants m (length (cells n))" "grants m (length clauses)" by blast+
  from env have w: "writable m outputFile" by blast
  have "clausesCNF_on m n k = Inr clauses"
    by (rule clausesCNF_on_granted[OF c s gl(1) g gl(2)])
  from writeCNF_on_Inr[OF this w] e u
  show "\<exists>clauses. writeCNF_on m n k outputFile fs = Inr (fs(outputFile \<mapsto> dimacs (2 * n * n) clauses))
               \<and> [] \<in> set clauses \<and> (\<forall>\<sigma>. \<not> satisfies \<sigma> clauses)" by blast
next
  assume "k < - 1 \<or> n * n + 1 < k"
  from writeCNF_on_Inl[OF clausesCNF_on_raises[OF this]]
  show "writeCNF_on m n k outputFile fs =
              Inl (if \<not> grants m (length (cells n)) then MemoryError
                   else if \<not> in_ssize m (k + 1) then OverflowError
                   else if k + 1 < 0 then ValueError
                   else if \<not> grants m (nat (k + 1)) then MemoryError
                   else if \<not> in_ssize m (n * n - k + 1) then OverflowError
                   else ValueError)" .
qed


theorem out_of_range_k_witness:
  "(1::int) \<le> 1
   \<and> (\<exists>clauses. writeCNF_on (machine64 (\<lambda>s. True) (\<lambda>p. True)) 1 (1 * 1 + 1) ''tmp.cnf'' Map.empty
                   = Inr [''tmp.cnf'' \<mapsto> dimacs (2 * 1 * 1) clauses] \<and> [] \<in> set clauses)
   \<and> writeCNF_on (machine64 (\<lambda>s. True) (\<lambda>p. True)) 1 (2 ^ 63) ''tmp.cnf'' Map.empty = Inl OverflowError
   \<and> writeCNF_on (machine64 (\<lambda>s. True) (\<lambda>p. True)) 1 (2 ^ 60) ''tmp.cnf'' Map.empty = Inl MemoryError
   \<and> writeCNF_on (machine64 (\<lambda>s. s < 2 ^ 33) (\<lambda>p. True)) 1 (2 ^ 40) ''tmp.cnf'' Map.empty = Inl MemoryError
   \<and> writeCNF_on (machine64 (\<lambda>s. True) (\<lambda>p. True)) 1 3 ''tmp.cnf'' Map.empty = Inl ValueError"
proof (intro conjI)
  show h: "(1::int) \<le> 1" by simp
  have c: "clausesCNF 1 (1 * 1 + 1) = Inr [[], [], [- 1, - 2]]"
    by code_simp
  have "\<forall>cs. clausesCNF 1 (1 * 1 + 1) = Inr cs \<longrightarrow> grants (machine64 (\<lambda>s. True) (\<lambda>p. True)) (length cs)"
    unfolding c by (simp add: machine64_def)
  with out_of_range_k[OF h, of "1 * 1 + 1" "machine64 (\<lambda>s. True) (\<lambda>p. True)" "''tmp.cnf''" Map.empty]
  show "\<exists>clauses. writeCNF_on (machine64 (\<lambda>s. True) (\<lambda>p. True)) 1 (1 * 1 + 1) ''tmp.cnf'' Map.empty
                   = Inr [''tmp.cnf'' \<mapsto> dimacs (2 * 1 * 1) clauses] \<and> [] \<in> set clauses"
    by (simp add: machine64_def length_cells) blast
  from out_of_range_k[OF h, of "2 ^ 63" "machine64 (\<lambda>s. True) (\<lambda>p. True)" "''tmp.cnf''" Map.empty]
  show "writeCNF_on (machine64 (\<lambda>s. True) (\<lambda>p. True)) 1 (2 ^ 63) ''tmp.cnf'' Map.empty = Inl OverflowError"
    by (simp add: machine64_def length_cells)
  from out_of_range_k[OF h, of "2 ^ 60" "machine64 (\<lambda>s. True) (\<lambda>p. True)" "''tmp.cnf''" Map.empty]
  show "writeCNF_on (machine64 (\<lambda>s. True) (\<lambda>p. True)) 1 (2 ^ 60) ''tmp.cnf'' Map.empty = Inl MemoryError"
    by (simp add: machine64_def length_cells)
  from out_of_range_k[OF h, of "2 ^ 40" "machine64 (\<lambda>s. s < 2 ^ 33) (\<lambda>p. True)" "''tmp.cnf''" Map.empty]
  show "writeCNF_on (machine64 (\<lambda>s. s < 2 ^ 33) (\<lambda>p. True)) 1 (2 ^ 40) ''tmp.cnf'' Map.empty = Inl MemoryError"
    by (simp add: machine64_def length_cells)
  from out_of_range_k[OF h, of 3 "machine64 (\<lambda>s. True) (\<lambda>p. True)" "''tmp.cnf''" Map.empty]
  show "writeCNF_on (machine64 (\<lambda>s. True) (\<lambda>p. True)) 1 3 ''tmp.cnf'' Map.empty = Inl ValueError"
    by (simp add: machine64_def length_cells)
qed

section \<open>The entry point rejects a zero parameter\<close>

lemma main_rejects:
  assumes "(case arg_instance a of
              Some path \<Rightarrow>
                if path \<noteq> []
                then (case read_instance fs path of
                        Inl e \<Rightarrow> Inl e
                      | Inr (n, k) \<Rightarrow> Inr (Some n, Some k))
                else Inr (arg_n a, arg_k a)
            | None \<Rightarrow> Inr (arg_n a, arg_k a)) = Inr (n, k)"
    and "n = Some 0 \<or> k = Some 0"
  shows "main a fs glucose = \<lparr>printed = [''Please specify n and k.''], disk = fs, status = SysExit 1\<rparr>"
  using assms(2) unfolding main_def assms(1) by (auto simp: truthy_int_def)


text \<open>
  C9. When \<open>--instance\<close> is not given (or is the empty string) and \<open>--n\<close> or \<open>--k\<close> is
  \<open>0\<close>, and when the instance file is read successfully and its \<open>n\<close> or \<open>k\<close> is \<open>0\<close>,
  \<open>main\<close> prints \<open>Please specify n and k.\<close> and nothing else, exits with status \<open>1\<close>, and
  leaves the file system as it was: \<open>writeCNF\<close> has not run.
\<close>

theorem zero_parameter_rejected:
  "((arg_instance a = None \<or> arg_instance a = Some []) \<and> (arg_n a = Some 0 \<or> arg_k a = Some 0) \<longrightarrow>
      main a fs glucose = \<lparr>printed = [''Please specify n and k.''], disk = fs, status = SysExit 1\<rparr>)
   \<and> (arg_instance a = Some path \<and> path \<noteq> [] \<and> read_instance fs path = Inr (n, k) \<and> (n = 0 \<or> k = 0) \<longrightarrow>
      main a fs glucose = \<lparr>printed = [''Please specify n and k.''], disk = fs, status = SysExit 1\<rparr>)"
proof (intro conjI impI)
  assume h: "(arg_instance a = None \<or> arg_instance a = Some []) \<and> (arg_n a = Some 0 \<or> arg_k a = Some 0)"
  show "main a fs glucose = \<lparr>printed = [''Please specify n and k.''], disk = fs, status = SysExit 1\<rparr>"
  proof (rule main_rejects)
    from h show "(case arg_instance a of
              Some path \<Rightarrow>
                if path \<noteq> []
                then (case read_instance fs path of
                        Inl e \<Rightarrow> Inl e
                      | Inr (n, k) \<Rightarrow> Inr (Some n, Some k))
                else Inr (arg_n a, arg_k a)
            | None \<Rightarrow> Inr (arg_n a, arg_k a)) = Inr (arg_n a, arg_k a)"
      by auto
    from h show "arg_n a = Some 0 \<or> arg_k a = Some 0" by simp
  qed
next
  assume h: "arg_instance a = Some path \<and> path \<noteq> [] \<and> read_instance fs path = Inr (n, k) \<and> (n = 0 \<or> k = 0)"
  show "main a fs glucose = \<lparr>printed = [''Please specify n and k.''], disk = fs, status = SysExit 1\<rparr>"
  proof (rule main_rejects)
    from h show "(case arg_instance a of
              Some path \<Rightarrow>
                if path \<noteq> []
                then (case read_instance fs path of
                        Inl e \<Rightarrow> Inl e
                      | Inr (n, k) \<Rightarrow> Inr (Some n, Some k))
                else Inr (arg_n a, arg_k a)
            | None \<Rightarrow> Inr (arg_n a, arg_k a)) = Inr (Some n, Some k)"
      by auto
    from h show "Some n = Some 0 \<or> Some k = Some 0" by simp
  qed
qed

lemma instance_3_0:
  "read_instance [''inst.txt'' \<mapsto> ''3'' @ [CHR 0x0A] @ ''0'' @ [CHR 0x0A]] ''inst.txt'' = Inr (3, 0)"
  by code_simp

theorem zero_parameter_rejected_witness:
  "main \<lparr>arg_n = Some 4, arg_k = Some 0, arg_cnf = None, arg_solve = True, arg_stats = False,
          arg_instance = None\<rparr> Map.empty (\<lambda>fs p. Inl FileNotFoundError)
     = \<lparr>printed = [''Please specify n and k.''], disk = Map.empty, status = SysExit 1\<rparr>
   \<and> main \<lparr>arg_n = None, arg_k = None, arg_cnf = None, arg_solve = False, arg_stats = False,
            arg_instance = Some ''inst.txt''\<rparr>
          [''inst.txt'' \<mapsto> ''3'' @ [CHR 0x0A] @ ''0'' @ [CHR 0x0A]] (\<lambda>fs p. Inl FileNotFoundError)
     = \<lparr>printed = [''Please specify n and k.''],
        disk = [''inst.txt'' \<mapsto> ''3'' @ [CHR 0x0A] @ ''0'' @ [CHR 0x0A]], status = SysExit 1\<rparr>"
proof (intro conjI)
  from zero_parameter_rejected[where a = "\<lparr>arg_n = Some 4, arg_k = Some 0, arg_cnf = None, arg_solve = True,
          arg_stats = False, arg_instance = None\<rparr>" and fs = Map.empty
          and glucose = "\<lambda>fs p. Inl FileNotFoundError"]
  show "main \<lparr>arg_n = Some 4, arg_k = Some 0, arg_cnf = None, arg_solve = True, arg_stats = False,
          arg_instance = None\<rparr> Map.empty (\<lambda>fs p. Inl FileNotFoundError)
     = \<lparr>printed = [''Please specify n and k.''], disk = Map.empty, status = SysExit 1\<rparr>"
    by simp
  from zero_parameter_rejected[where a = "\<lparr>arg_n = None, arg_k = None, arg_cnf = None, arg_solve = False,
          arg_stats = False, arg_instance = Some ''inst.txt''\<rparr>" and path = "''inst.txt''"
          and fs = "[''inst.txt'' \<mapsto> ''3'' @ [CHR 0x0A] @ ''0'' @ [CHR 0x0A]]" and n = 3 and k = 0
          and glucose = "\<lambda>fs p. Inl FileNotFoundError"]
    instance_3_0
  show "main \<lparr>arg_n = None, arg_k = None, arg_cnf = None, arg_solve = False, arg_stats = False,
            arg_instance = Some ''inst.txt''\<rparr>
          [''inst.txt'' \<mapsto> ''3'' @ [CHR 0x0A] @ ''0'' @ [CHR 0x0A]] (\<lambda>fs p. Inl FileNotFoundError)
     = \<lparr>printed = [''Please specify n and k.''],
        disk = [''inst.txt'' \<mapsto> ''3'' @ [CHR 0x0A] @ ''0'' @ [CHR 0x0A]], status = SysExit 1\<rparr>"
    by simp
qed

section \<open>The solver's output without a status line\<close>









section \<open>What the decoder draws\<close>

lemma position_sets:
  assumes "i \<in> set (range1 n)" "j \<in> set (range1 n)"
  shows "(i, j) \<in> fst (positions n model) \<longleftrightarrow> 0 < wVar n i j \<and> wVar n i j \<in> set model"
    and "(i, j) \<in> snd (positions n model) \<longleftrightarrow> 0 < bVar n i j \<and> bVar n i j \<in> set model"
  using assms unfolding positions_eq set_cells set_range1 by auto

lemma board_row_symbols:
  assumes "i \<in> set (range1 n)"
  shows "board_row n (fst (positions n model)) (snd (positions n model)) i =
           join '' '' [if 0 < wVar n i j \<and> wVar n i j \<in> set model then ''W''
                       else if 0 < bVar n i j \<and> bVar n i j \<in> set model then ''B''
                       else ''.''. j \<leftarrow> range1 n]"
proof -
  have "map (\<lambda>j. if (i, j) \<in> fst (positions n model) then ''W''
                 else if (i, j) \<in> snd (positions n model) then ''B'' else ''.'') (range1 n)
      = map (\<lambda>j. if 0 < wVar n i j \<and> wVar n i j \<in> set model then ''W''
                 else if 0 < bVar n i j \<and> bVar n i j \<in> set model then ''B'' else ''.'') (range1 n)"
    by (rule map_cong[OF refl]) (simp only: position_sets[OF assms])
  then show ?thesis unfolding board_row_def by (simp only:)
qed

lemma decodeSolution_rows:
  "decodeSolution n model =
     join [CHR 0x0A]
       [join '' '' [if 0 < wVar n i j \<and> wVar n i j \<in> set model then ''W''
                    else if 0 < bVar n i j \<and> bVar n i j \<in> set model then ''B''
                    else ''.''. j \<leftarrow> range1 n]. i \<leftarrow> range1 n]"
proof -
  have d: "decodeSolution n model =
      join [CHR 0x0A] (map (board_row n (fst (positions n model)) (snd (positions n model))) (range1 n))"
    unfolding decodeSolution_def by (simp add: case_prod_beta)
  have "map (board_row n (fst (positions n model)) (snd (positions n model))) (range1 n)
      = map (\<lambda>i. join '' '' [if 0 < wVar n i j \<and> wVar n i j \<in> set model then ''W''
                    else if 0 < bVar n i j \<and> bVar n i j \<in> set model then ''B''
                    else ''.''. j \<leftarrow> range1 n]) (range1 n)"
    by (rule map_cong[OF refl]) (rule board_row_symbols)
  with d show ?thesis by (simp only:)
qed

lemma length_join_blocks:
  assumes "\<forall>x \<in> set xs. length x = L" "xs \<noteq> []"
  shows "length (join [c] xs) + 1 = length xs * (L + 1)"
  using assms by (induction "[c]" xs rule: join.induct) auto

lemma nth_join_blocks:
  assumes "\<forall>x \<in> set xs. length x = L" "r < length xs" "q < L"
  shows "join [c] xs ! (r * (L + 1) + q) = xs ! r ! q"
  using assms
proof (induction "[c]" xs arbitrary: r rule: join.induct)
  case 1
  then show ?case by simp
next
  case (2 x)
  then show ?case by simp
next
  case (3 x y ys)
  show ?case
  proof (cases r)
    case 0
    with 3 show ?thesis by (simp add: nth_append)
  next
    case (Suc r')
    from 3(2) have l: "length x = L" and a: "\<forall>x \<in> set (y # ys). length x = L" by simp_all
    from 3(3) Suc have r': "r' < length (y # ys)" by simp
    have i: "r * (L + 1) + q = length x + (1 + (r' * (L + 1) + q))"
      using Suc l by simp
    have "join [c] (x # y # ys) ! (r * (L + 1) + q) = join [c] (y # ys) ! (r' * (L + 1) + q)"
      unfolding i by (simp add: nth_append l add.assoc)
    also have "\<dots> = (y # ys) ! r' ! q"
      by (rule 3(1)[OF a r' 3(4)])
    finally show ?thesis using Suc by simp
  qed
qed

lemma range1_Nil: "range1 n = [] \<longleftrightarrow> n \<le> 0"
  unfolding range1_def by auto

lemma nth_range1: "0 \<le> i \<Longrightarrow> i < n \<Longrightarrow> range1 n ! nat i = i"
  unfolding range1_def by (simp add: nth_upto)


lemma symbol_rows_nth:
  fixes sym :: "int \<Rightarrow> int \<Rightarrow> char"
  assumes "0 \<le> i" "i < n" "0 \<le> j" "j < n"
  shows "join [CHR 0x0A] [join '' '' [[sym i j]. j \<leftarrow> range1 n]. i \<leftarrow> range1 n]
           ! nat (i * (2 * n) + 2 * j) = sym i j"
proof -
  let ?row = "\<lambda>i. join '' '' [[sym i j]. j \<leftarrow> range1 n]"
  let ?L = "2 * nat n - 1"
  have n: "0 < nat n" using assms by simp
  have rl: "length (?row i') = ?L" for i'
  proof -
    have "length (join [CHR '' ''] (map (\<lambda>j. [sym i' j]) (range1 n))) + 1
            = length (map (\<lambda>j. [sym i' j]) (range1 n)) * (1 + 1)"
      by (rule length_join_blocks) (use n in \<open>auto simp: length_range1 range1_Nil\<close>)
    then show ?thesis by (simp add: length_range1)
  qed
  have idx: "nat (i * (2 * n) + 2 * j) = nat i * (?L + 1) + (nat j * (1 + 1) + 0)"
  proof -
    have "?L + 1 = 2 * nat n" using n by simp
    moreover have "nat (i * (2 * n) + 2 * j) = nat i * (2 * nat n) + nat j * 2"
      using assms by (simp add: nat_add_distrib nat_mult_distrib)
    ultimately show ?thesis by simp
  qed
  have q: "nat j * (1 + 1) + 0 < ?L" using assms by simp
  have "join [CHR 0x0A] (map ?row (range1 n)) ! (nat i * (?L + 1) + (nat j * (1 + 1) + 0))
          = map ?row (range1 n) ! nat i ! (nat j * (1 + 1) + 0)"
    by (rule nth_join_blocks) (use assms rl q in \<open>auto simp: length_range1\<close>)
  also have "\<dots> = ?row i ! (nat j * (1 + 1) + 0)"
    using assms by (simp add: length_range1 nth_range1)
  also have "\<dots> = map (\<lambda>j. [sym i j]) (range1 n) ! nat j ! 0"
  proof -
    have "join [CHR '' ''] (map (\<lambda>j. [sym i j]) (range1 n)) ! (nat j * (1 + 1) + 0)
            = map (\<lambda>j. [sym i j]) (range1 n) ! nat j ! 0"
      by (rule nth_join_blocks) (use assms in \<open>auto simp: length_range1\<close>)
    then show ?thesis by simp
  qed
  also have "\<dots> = sym i j"
    using assms by (simp add: length_range1 nth_range1)
  finally show ?thesis unfolding idx .
qed

lemma symbol_rows_length:
  fixes sym :: "int \<Rightarrow> int \<Rightarrow> char"
  assumes "1 \<le> n"
  shows "length (join [CHR 0x0A] [join '' '' [[sym i j]. j \<leftarrow> range1 n]. i \<leftarrow> range1 n])
           = nat (2 * n * n - 1)"
proof -
  let ?row = "\<lambda>i. join '' '' [[sym i j]. j \<leftarrow> range1 n]"
  let ?L = "2 * nat n - 1"
  have n: "0 < nat n" using assms by simp
  have rl: "length (?row i') = ?L" for i'
  proof -
    have "length (join [CHR '' ''] (map (\<lambda>j. [sym i' j]) (range1 n))) + 1
            = length (map (\<lambda>j. [sym i' j]) (range1 n)) * (1 + 1)"
      by (rule length_join_blocks) (use n in \<open>auto simp: length_range1 range1_Nil\<close>)
    then show ?thesis by (simp add: length_range1)
  qed
  have "length (join [CHR 0x0A] (map ?row (range1 n))) + 1 = length (map ?row (range1 n)) * (?L + 1)"
    by (rule length_join_blocks) (use n rl in \<open>auto simp: length_range1 range1_Nil\<close>)
  then have "length (join [CHR 0x0A] (map ?row (range1 n))) + 1 = nat n * (2 * nat n)"
    using n by (simp add: length_range1)
  moreover have "nat (2 * n * n - 1) + 1 = nat n * (2 * nat n)"
  proof -
    have "1 * 1 \<le> n * n" by (rule mult_mono) (use assms in simp_all)
    then have "1 \<le> 2 * n * n" by simp
    then have "nat (2 * n * n - 1) + 1 = nat (2 * n * n)" by simp
    also have "\<dots> = nat n * (2 * nat n)"
      using assms by (simp add: nat_mult_distrib)
    finally show ?thesis .
  qed
  ultimately show ?thesis by simp
qed


lemma cell_ids_positive:
  assumes "0 \<le> i" "0 \<le> j" "0 \<le> n"
  shows "0 < wVar n i j" "0 < bVar n i j"
proof -
  have "0 \<le> i * n" "0 \<le> n * n" using assms by simp_all
  then show "0 < wVar n i j" "0 < bVar n i j"
    using assms(2) unfolding wVar_def bVar_def by linarith+
qed

text \<open>
  C8. The board \<open>decodeSolution\<close> returns is made of one row for each \<open>i\<close> in \<open>range(n)\<close>,
  joined by line feeds, each row being one symbol for each \<open>j\<close> in \<open>range(n)\<close>, joined by
  spaces: \<open>W\<close> when the cell's \<open>wVar\<close> ID is a positive entry of the model, else \<open>B\<close> when
  its \<open>bVar\<close> ID is, else a dot. For \<open>n \<ge> 1\<close> the board has \<open>2 * n * n - 1\<close> characters,
  and the character for a cell \<open>(i, j)\<close> of the board, at index \<open>i * 2 * n + 2 * j\<close>, is
  \<open>W\<close> when \<open>wVar n i j\<close> occurs in the model (also when \<open>bVar n i j\<close> occurs as well),
  else \<open>B\<close> when \<open>bVar n i j\<close> occurs, else a dot: an ID that does not occur counts as
  false. The function is total: it returns a board for every \<open>n\<close> and every model.
\<close>

theorem decode_symbols:
  "decodeSolution n model =
     join [CHR 0x0A]
       [join '' '' [if 0 < wVar n i j \<and> wVar n i j \<in> set model then ''W''
                    else if 0 < bVar n i j \<and> bVar n i j \<in> set model then ''B''
                    else ''.''. j \<leftarrow> range1 n]. i \<leftarrow> range1 n]
   \<and> (1 \<le> n \<longrightarrow> length (decodeSolution n model) = nat (2 * n * n - 1))
   \<and> (0 \<le> i \<and> i < n \<and> 0 \<le> j \<and> j < n \<longrightarrow>
        decodeSolution n model ! nat (i * (2 * n) + 2 * j) =
          (if wVar n i j \<in> set model then CHR ''W''
           else if bVar n i j \<in> set model then CHR ''B''
           else CHR ''.''))"
proof (intro conjI impI)
  let ?sym = "\<lambda>i j. if 0 < wVar n i j \<and> wVar n i j \<in> set model then CHR ''W''
                      else if 0 < bVar n i j \<and> bVar n i j \<in> set model then CHR ''B''
                      else CHR ''.''"
  have s: "(if 0 < wVar n i j \<and> wVar n i j \<in> set model then ''W''
            else if 0 < bVar n i j \<and> bVar n i j \<in> set model then ''B''
            else ''.'') = [?sym i j]" for i j
    by simp
  have d: "decodeSolution n model =
             join [CHR 0x0A] [join '' '' [[?sym i j]. j \<leftarrow> range1 n]. i \<leftarrow> range1 n]"
    unfolding decodeSolution_rows s ..
  show "decodeSolution n model =
     join [CHR 0x0A]
       [join '' '' [if 0 < wVar n i j \<and> wVar n i j \<in> set model then ''W''
                    else if 0 < bVar n i j \<and> bVar n i j \<in> set model then ''B''
                    else ''.''. j \<leftarrow> range1 n]. i \<leftarrow> range1 n]"
    by (rule decodeSolution_rows)
  {
    assume "1 \<le> n"
    then show "length (decodeSolution n model) = nat (2 * n * n - 1)"
      unfolding d by (rule symbol_rows_length)
  }
  {
    assume c: "0 \<le> i \<and> i < n \<and> 0 \<le> j \<and> j < n"
    then have p: "0 < wVar n i j" "0 < bVar n i j"
      by (simp_all add: cell_ids_positive)
    from c have "decodeSolution n model ! nat (i * (2 * n) + 2 * j) = ?sym i j"
      unfolding d by (intro symbol_rows_nth) simp_all
    with p show "decodeSolution n model ! nat (i * (2 * n) + 2 * j) =
          (if wVar n i j \<in> set model then CHR ''W''
           else if bVar n i j \<in> set model then CHR ''B''
           else CHR ''.'')"
      by simp
  }
qed

theorem decode_symbols_witness:
  "decodeSolution 2 [1, 5, - 2, 8] = ''W .\<newline>. B''
   \<and> wVar 2 0 0 = 1 \<and> bVar 2 0 0 = 5
   \<and> decodeSolution 2 [1, 5, - 2, 8] ! nat (0 * (2 * 2) + 2 * 0) = CHR ''W''
   \<and> decodeSolution 2 [1, 5, - 2, 8] ! nat (0 * (2 * 2) + 2 * 1) = CHR ''.''
   \<and> decodeSolution 2 [1, 5, - 2, 8] ! nat (1 * (2 * 2) + 2 * 1) = CHR ''B''"
proof (intro conjI)
  show "decodeSolution 2 [1, 5, - 2, 8] = ''W .\<newline>. B''"
    using decode_symbols[of 2 "[1, 5, - 2, 8]" 0 0, THEN conjunct1]
    by (simp add: range1_def upto.simps wVar_def bVar_def)
  show "wVar 2 0 0 = 1" by (simp add: wVar_def)
  show "bVar 2 0 0 = 5" by (simp add: bVar_def)
  show "decodeSolution 2 [1, 5, - 2, 8] ! nat (0 * (2 * 2) + 2 * 0) = CHR ''W''"
    using decode_symbols[of 2 "[1, 5, - 2, 8]" 0 0, THEN conjunct2, THEN conjunct2]
    by (simp add: wVar_def bVar_def)
  show "decodeSolution 2 [1, 5, - 2, 8] ! nat (0 * (2 * 2) + 2 * 1) = CHR ''.''"
    using decode_symbols[of 2 "[1, 5, - 2, 8]" 0 1, THEN conjunct2, THEN conjunct2]
    by (simp add: wVar_def bVar_def)
  show "decodeSolution 2 [1, 5, - 2, 8] ! nat (1 * (2 * 2) + 2 * 1) = CHR ''B''"
    using decode_symbols[of 2 "[1, 5, - 2, 8]" 1 1, THEN conjunct2, THEN conjunct2]
    by (simp add: wVar_def bVar_def)
qed

section \<open>The same parameters give the same file\<close>







end
